theory Spec2Isabelle
  imports Main "HOL-Library.AList" "HOL-Library.Multiset"
begin

section \<open>Strings\<close>

text \<open>
  JavaScript strings are sequences of UTF-16 code units. The model covers the code units
  below 256: a \<^typ>\<open>char\<close> is the code unit with that number, so that
  \<^typ>\<open>string\<close> is a JavaScript string of such units.
\<close>

text \<open>
  \<^verbatim>\<open>String.prototype.trim\<close>: the white space and line terminators of ECMAScript below
  256 are TAB, LF, VT, FF, CR, SP and NBSP.
\<close>

definition isWhiteSpace :: "char \<Rightarrow> bool" where
  "isWhiteSpace c = ((of_char c :: nat) \<in> {9, 10, 11, 12, 13, 32, 160})"

definition trim :: "string \<Rightarrow> string" where
  "trim s = rev (dropWhile isWhiteSpace (rev (dropWhile isWhiteSpace s)))"

text \<open>
  \<^verbatim>\<open>String.prototype.toLowerCase\<close> on code units below 256: A-Z and the Latin-1 capitals
  U+00C0..U+00DE (without the multiplication sign U+00D7) move up by 32.
\<close>

definition lowerChar :: "char \<Rightarrow> char" where
  "lowerChar c =
     (let n = (of_char c :: nat)
      in if (65 \<le> n \<and> n \<le> 90) \<or> (192 \<le> n \<and> n \<le> 222 \<and> n \<noteq> 215)
         then char_of (n + 32) else c)"

definition toLowerCase :: "string \<Rightarrow> string" where
  "toLowerCase s = map lowerChar s"

text \<open>
  \<^verbatim>\<open>s.split(sep)\<close> for a one-character separator: the pieces between the separators,
  always at least one piece.
\<close>

fun split :: "char \<Rightarrow> string \<Rightarrow> string list" where
  "split sep [] = [[]]"
| "split sep (x # xs) =
     (if x = sep then [] # split sep xs
      else (case split sep xs of
              [] \<Rightarrow> [[x]]
            | p # ps \<Rightarrow> (x # p) # ps))"

text \<open>\<^verbatim>\<open>Array.prototype.pop\<close>: the last element, \<^verbatim>\<open>undefined\<close> on an empty array.\<close>

definition pop :: "'a list \<Rightarrow> 'a option" where
  "pop xs = (if xs = [] then None else Some (last xs))"

text \<open>\<^verbatim>\<open>pieces.join(sep)\<close>.\<close>

fun joinWith :: "string \<Rightarrow> string list \<Rightarrow> string" where
  "joinWith sep [] = []"
| "joinWith sep [p] = p"
| "joinWith sep (p # q # ps) = p @ sep @ joinWith sep (q # ps)"

text \<open>
  \<^verbatim>\<open>s.replace(pattern, replacement)\<close> with a string pattern: only the first occurrence
  of the pattern is replaced, and in the replacement text \<^verbatim>\<open>$$\<close> stands for a dollar,
  \<^verbatim>\<open>$&\<close> for the matched text, \<^verbatim>\<open>$`\<close> for the text before the match and
  \<^verbatim>\<open>$'\<close> for the text after it (there are no capture groups, so every other dollar
  is literal).
\<close>

fun getSubstitution :: "string \<Rightarrow> string \<Rightarrow> string \<Rightarrow> string \<Rightarrow> string" where
  "getSubstitution matched pre post [] = []"
| "getSubstitution matched pre post [c] = [c]"
| "getSubstitution matched pre post (c # d # r) =
     (if c = CHR ''$'' \<and> d = CHR ''$'' then CHR ''$'' # getSubstitution matched pre post r
      else if c = CHR ''$'' \<and> d = CHR ''&'' then matched @ getSubstitution matched pre post r
      else if c = CHR ''$'' \<and> d = CHR 0x60 then pre @ getSubstitution matched pre post r
      else if c = CHR ''$'' \<and> d = CHR 0x27 then post @ getSubstitution matched pre post r
      else c # getSubstitution matched pre post (d # r))"

fun replaceFrom :: "string \<Rightarrow> string \<Rightarrow> string \<Rightarrow> string \<Rightarrow> string" where
  "replaceFrom pre s pat rep =
     (if take (length pat) s = pat
      then pre @ getSubstitution pat pre (drop (length pat) s) rep @ drop (length pat) s
      else (case s of
              [] \<Rightarrow> pre
            | x # xs \<Rightarrow> replaceFrom (pre @ [x]) xs pat rep))"

definition replace :: "string \<Rightarrow> string \<Rightarrow> string \<Rightarrow> string" where
  "replace s pat rep = replaceFrom [] s pat rep"

section \<open>The \<^verbatim>\<open>path\<close> module (POSIX)\<close>

text \<open>
  \<^verbatim>\<open>normalizeString\<close> of Node's \<^verbatim>\<open>path\<close> module, on the pieces between the slashes:
  empty pieces and \<^verbatim>\<open>.\<close> are dropped, \<^verbatim>\<open>..\<close> removes the piece before it, and is kept
  only where \<^verbatim>\<open>allowAboveRoot\<close> holds and nothing is left to remove. The accumulator
  holds the result so far, last piece first.
\<close>

fun normalizeString :: "bool \<Rightarrow> string list \<Rightarrow> string list \<Rightarrow> string list" where
  "normalizeString allowAboveRoot [] acc = rev acc"
| "normalizeString allowAboveRoot (p # ps) acc =
     (if p = [] \<or> p = ''.'' then normalizeString allowAboveRoot ps acc
      else if p = ''..'' then
        (case acc of
           [] \<Rightarrow> normalizeString allowAboveRoot ps (if allowAboveRoot then [''..''] else [])
         | t # ts \<Rightarrow>
             if t = ''..''
             then normalizeString allowAboveRoot ps (if allowAboveRoot then ''..'' # acc else acc)
             else normalizeString allowAboveRoot ps ts)
      else normalizeString allowAboveRoot ps (p # acc))"

definition normalize :: "string \<Rightarrow> string" where
  "normalize path =
     (if path = [] then ''.''
      else
        let isAbsolute = (hd path = CHR ''/'');
            trailingSeparator = (last path = CHR ''/'');
            p = joinWith ''/'' (normalizeString (\<not> isAbsolute) (split CHR ''/'' path) [])
        in if p = [] then (if isAbsolute then ''/'' else if trailingSeparator then ''./'' else ''.'')
           else (if isAbsolute then ''/'' else []) @ p @ (if trailingSeparator then ''/'' else []))"

text \<open>\<^verbatim>\<open>path.join\<close>: the non-empty arguments, joined by slashes and normalized.\<close>

definition join :: "string list \<Rightarrow> string" where
  "join args =
     (let joined = joinWith ''/'' (filter (\<lambda>a. a \<noteq> []) args)
      in if joined = [] then ''.'' else normalize joined)"

text \<open>
  \<^verbatim>\<open>path.basename\<close> without a suffix: trailing slashes are skipped, then the text after
  the last remaining slash.
\<close>

definition basename :: "string \<Rightarrow> string" where
  "basename path =
     rev (takeWhile (\<lambda>c. c \<noteq> CHR ''/'') (dropWhile (\<lambda>c. c = CHR ''/'') (rev path)))"

text \<open>
  \<^verbatim>\<open>path.dirname\<close>: scanning from the end down to index 1, trailing slashes and the last
  piece are skipped; the path up to the slash found there is the result.
\<close>

definition dirname :: "string \<Rightarrow> string" where
  "dirname path =
     (if path = [] then ''.''
      else
        let hasRoot = (hd path = CHR ''/'');
            rest = dropWhile (\<lambda>c. c \<noteq> CHR ''/'')
                     (dropWhile (\<lambda>c. c = CHR ''/'') (rev (tl path)));
            endIdx = length rest
        in if rest = [] then (if hasRoot then ''/'' else ''.'')
           else if hasRoot \<and> endIdx = 1 then ''//''
           else take endIdx path)"

section \<open>The filesystem\<close>

text \<open>
  The filesystem is a tree. A directory holds its entries in the order in which
  \<^verbatim>\<open>readdir\<close> lists them; an entry that is not a directory is a file. A dangling
  symbolic link is an entry that \<^verbatim>\<open>readdir\<close> lists and \<^verbatim>\<open>stat\<close> cannot follow. A
  directory without read permission cannot be listed. Times are milliseconds.
\<close>

record meta =
  m_size :: nat
  m_birthtime :: int
  m_mtime :: int

datatype fsnode =
    FileN meta
  | DirN meta bool "(string \<times> fsnode) list"
  | DanglingN

datatype errno =
    ENOENT | ENOTDIR | EEXIST | EACCES | EBUSY | EINVAL | EISDIR | ENOTEMPTY
  | EROFS | ENOSPC | ENAMETOOLONG

text \<open>What \<^verbatim>\<open>fs.Stats\<close> gives the handlers.\<close>

record stats =
  isDirectory :: bool
  size_st :: nat
  birthtime :: int
  mtime :: int

text \<open>
  The pieces of a path that name entries, and whether the path ends in a slash (then
  its last piece must name a directory). Every path that reaches the filesystem comes
  out of \<^const>\<open>join\<close> on the absolute \<^verbatim>\<open>process.cwd()\<close>, so it is absolute and
  holds no \<^verbatim>\<open>.\<close> or \<^verbatim>\<open>..\<close> piece; it is resolved from the root of the tree.
\<close>

definition segments :: "string \<Rightarrow> string list" where
  "segments path = filter (\<lambda>p. p \<noteq> []) (split CHR ''/'' path)"

definition trailingSlash :: "string \<Rightarrow> bool" where
  "trailingSlash path = (path \<noteq> [] \<and> last path = CHR ''/'')"

fun lookupIn :: "(string \<times> fsnode) list \<Rightarrow> string list \<Rightarrow> errno + fsnode" where
  "lookupIn es [] = Inl ENOENT"
| "lookupIn [] (p # ps) = Inl ENOENT"
| "lookupIn ((k, FileN m) # es) (p # ps) =
     (if k = p then (if ps = [] then Inr (FileN m) else Inl ENOTDIR)
      else lookupIn es (p # ps))"
| "lookupIn ((k, DanglingN) # es) (p # ps) =
     (if k = p then (if ps = [] then Inr DanglingN else Inl ENOENT)
      else lookupIn es (p # ps))"
| "lookupIn ((k, DirN m r cs) # es) (p # ps) =
     (if k = p then (if ps = [] then Inr (DirN m r cs) else lookupIn cs ps)
      else lookupIn es (p # ps))"

text \<open>The entry a list of pieces names, from the node given.\<close>

fun lookup :: "fsnode \<Rightarrow> string list \<Rightarrow> errno + fsnode" where
  "lookup n [] = Inr n"
| "lookup (DirN m r es) (p # ps) = lookupIn es (p # ps)"
| "lookup (FileN m) (p # ps) = Inl ENOTDIR"
| "lookup DanglingN (p # ps) = Inl ENOENT"

text \<open>
  \<^verbatim>\<open>fs.stat\<close> follows the path and fails on a dangling link; \<^verbatim>\<open>fs.readdir\<close> gives
  the names of a readable directory, in its order. Both are split into the walk along
  the path and what happens at the entry reached.
\<close>

fun statNode :: "fsnode \<Rightarrow> errno + stats" where
  "statNode (FileN m) =
     Inr \<lparr>isDirectory = False, size_st = m_size m, birthtime = m_birthtime m, mtime = m_mtime m\<rparr>"
| "statNode (DirN m r es) =
     Inr \<lparr>isDirectory = True, size_st = m_size m, birthtime = m_birthtime m, mtime = m_mtime m\<rparr>"
| "statNode DanglingN = Inl ENOENT"

definition stat :: "fsnode \<Rightarrow> string \<Rightarrow> errno + stats" where
  "stat fs path =
     (case lookup fs (segments path) of
        Inl e \<Rightarrow> Inl e
      | Inr n \<Rightarrow>
          (case statNode n of
             Inl e \<Rightarrow> Inl e
           | Inr st \<Rightarrow> if trailingSlash path \<and> \<not> isDirectory st then Inl ENOTDIR else Inr st))"

fun readdirNode :: "fsnode \<Rightarrow> errno + string list" where
  "readdirNode (FileN m) = Inl ENOTDIR"
| "readdirNode (DirN m r es) = (if r then Inr (map fst es) else Inl EACCES)"
| "readdirNode DanglingN = Inl ENOENT"

definition readdir :: "fsnode \<Rightarrow> string \<Rightarrow> errno + string list" where
  "readdir fs path =
     (case lookup fs (segments path) of
        Inl e \<Rightarrow> Inl e
      | Inr n \<Rightarrow> readdirNode n)"

text \<open>
  \<^verbatim>\<open>fs.mkdir(path, {recursive: true})\<close>, the only way the handlers call it. An existing
  directory is left as it is; a file at the path is \<^verbatim>\<open>EEXIST\<close>, a file on the way
  \<^verbatim>\<open>ENOTDIR\<close>, a dangling link \<^verbatim>\<open>ENOENT\<close>. The missing directories are created from the
  top down. The system can refuse to create a directory for reasons that the tree does
  not show: no write permission on the parent (\<^verbatim>\<open>EACCES\<close>), a read-only filesystem
  (\<^verbatim>\<open>EROFS\<close>), no space left (\<^verbatim>\<open>ENOSPC\<close>), a name it does not accept, too long or with a
  NUL in it (\<^verbatim>\<open>ENAMETOOLONG\<close>, \<^verbatim>\<open>EINVAL\<close>). \<open>refuses ps\<close> is the error with which the entry
  at the pieces \<open>ps\<close> is refused, \<open>None\<close> when it is created. When a directory is refused,
  \<^verbatim>\<open>mkdir\<close> fails with that error and the directories it has created before stay. A new
  directory is empty and readable, it is listed last in its parent, and the parent's
  modification time moves to the clock's time.
\<close>

type_synonym refusal = "string list \<Rightarrow> errno option"

definition freshMeta :: "int \<Rightarrow> meta" where
  "freshMeta now = \<lparr>m_size = 0, m_birthtime = now, m_mtime = now\<rparr>"

text \<open>
  The directory just created at the pieces \<open>dir\<close>, with as many of the directories
  \<open>ps\<close> below it as are not refused.
\<close>

fun newDirs :: "int \<Rightarrow> refusal \<Rightarrow> string list \<Rightarrow> string list \<Rightarrow> errno option \<times> fsnode" where
  "newDirs now refuses dir [] = (None, DirN (freshMeta now) True [])"
| "newDirs now refuses dir (p # ps) =
     (case refuses (dir @ [p]) of
        Some e \<Rightarrow> (Some e, DirN (freshMeta now) True [])
      | None \<Rightarrow>
          (case newDirs now refuses (dir @ [p]) ps of
             (res, d) \<Rightarrow> (res, DirN (freshMeta now) True [(p, d)])))"

definition touched :: "int \<Rightarrow> meta \<Rightarrow> 'a list \<Rightarrow> 'a list \<Rightarrow> meta" where
  "touched now m es es' = (if length es' = length es then m else m\<lparr>m_mtime := now\<rparr>)"

text \<open>
  \<open>mkdirIn\<close> works on the entries of the directory at the pieces \<open>dir\<close>; its result is
  the error, if any, and the entries it leaves.
\<close>

fun mkdirIn ::
  "int \<Rightarrow> refusal \<Rightarrow> string list \<Rightarrow> (string \<times> fsnode) list \<Rightarrow> string list
   \<Rightarrow> errno option \<times> (string \<times> fsnode) list" where
  "mkdirIn now refuses dir es [] = (None, es)"
| "mkdirIn now refuses dir [] (p # ps) =
     (case refuses (dir @ [p]) of
        Some e \<Rightarrow> (Some e, [])
      | None \<Rightarrow>
          (case newDirs now refuses (dir @ [p]) ps of
             (res, d) \<Rightarrow> (res, [(p, d)])))"
| "mkdirIn now refuses dir ((k, c) # es) (p # ps) =
     (if k = p then
        (case c of
           FileN m \<Rightarrow> (Some (if ps = [] then EEXIST else ENOTDIR), (k, c) # es)
         | DanglingN \<Rightarrow> (Some ENOENT, (k, c) # es)
         | DirN m r cs \<Rightarrow>
             (case mkdirIn now refuses (dir @ [p]) cs ps of
                (res, cs') \<Rightarrow> (res, (k, DirN (touched now m cs cs') r cs') # es)))
      else
        (case mkdirIn now refuses dir es (p # ps) of
           (res, es') \<Rightarrow> (res, (k, c) # es')))"

definition mkdir :: "int \<Rightarrow> refusal \<Rightarrow> fsnode \<Rightarrow> string \<Rightarrow> errno option \<times> fsnode" where
  "mkdir now refuses fs path =
     (case fs of
        FileN m \<Rightarrow> (Some (if segments path = [] then EEXIST else ENOTDIR), fs)
      | DanglingN \<Rightarrow> (Some ENOENT, fs)
      | DirN m r es \<Rightarrow>
          (case mkdirIn now refuses [] es (segments path) of
             (res, es') \<Rightarrow> (res, DirN (touched now m es es') r es')))"

text \<open>
  \<^verbatim>\<open>fs.rename\<close>, as rename(2): the entry moves with everything below it; an existing
  target is replaced when it is of the same kind as the source (a directory only when
  empty); the root cannot be renamed and a directory cannot move below itself. When it
  fails nothing has changed. The directories that lose or gain the entry get the clock's
  time as modification time.
\<close>

fun isDir :: "fsnode \<Rightarrow> bool" where
  "isDir (DirN m r es) = True"
| "isDir n = False"

fun entries :: "fsnode \<Rightarrow> (string \<times> fsnode) list" where
  "entries (DirN m r es) = es"
| "entries n = []"

fun removeIn :: "int \<Rightarrow> (string \<times> fsnode) list \<Rightarrow> string list \<Rightarrow> (string \<times> fsnode) list" where
  "removeIn now es [] = es"
| "removeIn now [] (p # ps) = []"
| "removeIn now ((k, c) # es) (p # ps) =
     (if k = p then
        (if ps = [] then es
         else (case c of
                 DirN m r cs \<Rightarrow>
                   (k, DirN (if length ps = 1 then m\<lparr>m_mtime := now\<rparr> else m) r
                         (removeIn now cs ps)) # es
               | _ \<Rightarrow> (k, c) # es))
      else (k, c) # removeIn now es (p # ps))"

fun putIn :: "int \<Rightarrow> (string \<times> fsnode) list \<Rightarrow> string list \<Rightarrow> fsnode \<Rightarrow> (string \<times> fsnode) list" where
  "putIn now es [] n = es"
| "putIn now [] (p # ps) n = (if ps = [] then [(p, n)] else [])"
| "putIn now ((k, c) # es) (p # ps) n =
     (if k = p then
        (if ps = [] then (k, n) # es
         else (case c of
                 DirN m r cs \<Rightarrow>
                   (k, DirN (if length ps = 1 then m\<lparr>m_mtime := now\<rparr> else m) r
                         (putIn now cs ps n)) # es
               | _ \<Rightarrow> (k, c) # es))
      else (k, c) # putIn now es (p # ps) n)"

definition remove :: "int \<Rightarrow> fsnode \<Rightarrow> string list \<Rightarrow> fsnode" where
  "remove now fs ps =
     (case fs of
        DirN m r es \<Rightarrow> DirN (if length ps = 1 then m\<lparr>m_mtime := now\<rparr> else m) r (removeIn now es ps)
      | _ \<Rightarrow> fs)"

definition put :: "int \<Rightarrow> fsnode \<Rightarrow> string list \<Rightarrow> fsnode \<Rightarrow> fsnode" where
  "put now fs ps n =
     (case fs of
        DirN m r es \<Rightarrow> DirN (if length ps = 1 then m\<lparr>m_mtime := now\<rparr> else m) r (putIn now es ps n)
      | _ \<Rightarrow> fs)"

definition rename :: "int \<Rightarrow> fsnode \<Rightarrow> string \<Rightarrow> string \<Rightarrow> errno + fsnode" where
  "rename now fs oldPath newPath =
     (let os = segments oldPath; ns = segments newPath
      in if os = [] \<or> ns = [] then Inl EBUSY
         else
           (case lookup fs os of
              Inl e \<Rightarrow> Inl e
            | Inr src \<Rightarrow>
                if (trailingSlash oldPath \<or> trailingSlash newPath) \<and> \<not> isDir src then Inl ENOTDIR
                else
                  (case lookup fs (butlast ns) of
                     Inl e \<Rightarrow> Inl e
                   | Inr parent \<Rightarrow>
                       if parent = DanglingN then Inl ENOENT
                       else if \<not> isDir parent then Inl ENOTDIR
                       else if os = ns then Inr fs
                       else if isDir src \<and> take (length os) ns = os then Inl EINVAL
                       else
                         (case lookup fs ns of
                            Inl e \<Rightarrow> Inr (put now (remove now fs os) ns src)
                          | Inr dst \<Rightarrow>
                              if isDir src \<and> \<not> isDir dst then Inl ENOTDIR
                              else if \<not> isDir src \<and> isDir dst then Inl EISDIR
                              else if entries dst \<noteq> [] then Inl ENOTEMPTY
                              else Inr (put now (remove now fs os) ns src)))))"

section \<open>The tree of a response\<close>

text \<open>
  \<^verbatim>\<open>FolderNode\<close> and \<^verbatim>\<open>FileNode\<close>; the \<^verbatim>\<open>type\<close> tag is the constructor. Dates are
  milliseconds.
\<close>

datatype node =
    FolderNode (id_n: string) (name: string) (children: "node list")
      (createdAt: int) (updatedAt: int)
  | FileNode (id_n: string) (name: string) (size_n: nat) (extension: string) (mimeType: string)
      (createdAt: int) (updatedAt: int)
where
  "children (FileNode i n s e t c u) = []"
| "size_n (FolderNode i n ch c u) = 0"
| "extension (FolderNode i n ch c u) = []"
| "mimeType (FolderNode i n ch c u) = []"

text \<open>
  The collaborators from \<^verbatim>\<open>@/lib/fileUtils\<close> whose results the handlers only pass on:
  \<^verbatim>\<open>generateId()\<close>, whose result at the \<open>k\<close>-th call of a request is \<open>generateId k\<close>,
  and the lookup \<^verbatim>\<open>getMimeType\<close>. The handlers thread the number of calls made so far.
\<close>

record collaborators =
  generateId :: "nat \<Rightarrow> string"
  getMimeType :: "string \<Rightarrow> string"

text \<open>
  Modelled from the spec: \<^verbatim>\<open>sortByLastUpdate\<close> of \<^verbatim>\<open>@/lib/fileUtils\<close> is not among the
  sources. The spec has the reader sort the sequence by \<^verbatim>\<open>updatedAt\<close> descending, the
  most recently modified first, ties broken by the original enumeration order: a stable
  sort on the negated time. The reader's second argument \<^verbatim>\<open>true\<close> is the only way the
  function is called.
\<close>

definition sortByLastUpdate :: "node list \<Rightarrow> node list" where
  "sortByLastUpdate nodes = sort_key (\<lambda>n. - updatedAt n) nodes"

section \<open>The reader\<close>

text \<open>\<^verbatim>\<open>item.split('.').pop()?.toLowerCase() || ''\<close>\<close>

definition extensionOf :: "string \<Rightarrow> string" where
  "extensionOf item =
     (case map_option toLowerCase (pop (split CHR ''.'' item)) of
        None \<Rightarrow> []
      | Some e \<Rightarrow> if e = [] then [] else e)"

text \<open>
  \<^verbatim>\<open>readDirectory\<close> walks the directory that \<^verbatim>\<open>dirPath\<close> names: the model takes that
  entry of the tree, and \<^verbatim>\<open>stat(join(dirPath, item))\<close> is \<^const>\<open>statNode\<close> of the
  entry listed under \<^verbatim>\<open>item\<close>. \<open>readItems\<close> is the \<^verbatim>\<open>for\<close> loop; its result is
  \<open>None\<close> when a \<^verbatim>\<open>stat\<close> throws, which the \<^verbatim>\<open>catch\<close> of \<^verbatim>\<open>readDirectory\<close> turns into
  the empty sequence. The number is the count of \<^verbatim>\<open>generateId()\<close> calls.
\<close>

fun readDirectory :: "collaborators \<Rightarrow> nat \<Rightarrow> fsnode \<Rightarrow> string \<Rightarrow> node list \<times> nat"
  and readItems :: "collaborators \<Rightarrow> nat \<Rightarrow> (string \<times> fsnode) list \<Rightarrow> string \<Rightarrow> node list option \<times> nat"
where
  "readDirectory x c (FileN m) relativePath = ([], c)"
| "readDirectory x c DanglingN relativePath = ([], c)"
| "readDirectory x c (DirN m r es) relativePath =
     (if \<not> r then ([], c)
      else
        (case readItems x c es relativePath of
           (None, c') \<Rightarrow> ([], c')
         | (Some nodes, c') \<Rightarrow> (sortByLastUpdate nodes, c')))"
| "readItems x c [] relativePath = (Some [], c)"
| "readItems x c ((item, child) # es) relativePath =
     (case statNode child of
        Inl e \<Rightarrow> (None, c)
      | Inr stats \<Rightarrow>
          let itemRelativePath = (if relativePath \<noteq> [] then join [relativePath, item] else item)
          in if isDirectory stats then
               (case readDirectory x c child itemRelativePath of
                  (children', c1) \<Rightarrow>
                    let folderNode = FolderNode (generateId x c1) item children'
                                       (birthtime stats) (mtime stats)
                    in (case readItems x (Suc c1) es relativePath of
                          (None, c2) \<Rightarrow> (None, c2)
                        | (Some nodes, c2) \<Rightarrow> (Some (folderNode # nodes), c2)))
             else
               (let fileNode = FileNode (generateId x c) item (size_st stats) (extensionOf item)
                                 (getMimeType x item) (birthtime stats) (mtime stats)
                in (case readItems x (Suc c) es relativePath of
                      (None, c2) \<Rightarrow> (None, c2)
                    | (Some nodes, c2) \<Rightarrow> (Some (fileNode # nodes), c2))))"

section \<open>Requests and responses\<close>

text \<open>
  A parsed JSON body. A number matters to the handlers only through being zero or not,
  so integers stand for them. \<^verbatim>\<open>JSON.parse\<close> keeps the last of several equal keys.
\<close>

datatype json =
    JNull
  | JBool bool
  | JNum int
  | JStr string
  | JArr "json list"
  | JObj "(string \<times> json) list"

text \<open>
  Reading a property while destructuring: \<open>None\<close> is \<^verbatim>\<open>undefined\<close>. None of the
  properties the handlers read exists on a string, number, boolean or array.
\<close>

fun getProp :: "json \<Rightarrow> string \<Rightarrow> json option" where
  "getProp (JObj kvs) k = map_of (rev kvs) k"
| "getProp j k = None"

text \<open>\<^verbatim>\<open>!v\<close> is the negation of this.\<close>

fun truthy :: "json option \<Rightarrow> bool" where
  "truthy None = False"
| "truthy (Some JNull) = False"
| "truthy (Some (JBool b)) = b"
| "truthy (Some (JNum n)) = (n \<noteq> 0)"
| "truthy (Some (JStr s)) = (s \<noteq> [])"
| "truthy (Some (JArr vs)) = True"
| "truthy (Some (JObj kvs)) = True"

text \<open>\<^verbatim>\<open>typeof v === 'string'\<close>, with the string.\<close>

fun asString :: "json option \<Rightarrow> string option" where
  "asString (Some (JStr s)) = Some s"
| "asString v = None"

datatype payload =
    Failure string
  | TreeData node
  | Created string node
  | Renamed string string string string

record response =
  status :: nat
  payload :: payload

definition respond :: "nat \<Rightarrow> payload \<Rightarrow> response" where
  "respond st p = \<lparr>status = st, payload = p\<rparr>"

definition userFilesDirOf :: "string \<Rightarrow> string" where
  "userFilesDirOf cwd = join [cwd, ''public'', ''user-files'']"

section \<open>The handlers\<close>

text \<open>
  Every handler takes the filesystem and returns the filesystem it leaves. \<open>now\<close> is
  the clock (\<^verbatim>\<open>new Date()\<close> and the times the system writes), \<open>refuses\<close> says which
  directories the system refuses to create, \<open>cwd\<close> is \<^verbatim>\<open>process.cwd()\<close>.
\<close>

text \<open>
  \<^verbatim>\<open>initializeUserFilesDirectory\<close>: the \<^verbatim>\<open>catch\<close> ends it at the first call that
  throws, with what the calls before it have done.
\<close>

definition initializeUserFilesDirectory :: "int \<Rightarrow> refusal \<Rightarrow> fsnode \<Rightarrow> string \<Rightarrow> fsnode" where
  "initializeUserFilesDirectory now refuses fs userFilesDir =
     (case mkdir now refuses fs userFilesDir of
        (Some e, fs1) \<Rightarrow> fs1
      | (None, fs1) \<Rightarrow>
          (case readdir fs1 userFilesDir of
             Inl e \<Rightarrow> fs1
           | Inr items \<Rightarrow>
               if length items = 0 then
                 (case mkdir now refuses fs1 (join [userFilesDir, ''Documents'']) of
                    (Some e, fs2) \<Rightarrow> fs2
                  | (None, fs2) \<Rightarrow>
                      (case mkdir now refuses fs2 (join [userFilesDir, ''Images'']) of
                         (Some e, fs3) \<Rightarrow> fs3
                       | (None, fs3) \<Rightarrow> fs3))
               else fs1))"

text \<open>
  \<^verbatim>\<open>GET\<close>: the argument is \<^verbatim>\<open>searchParams.get('path')\<close>, \<open>None\<close> when the query has no
  such parameter. The initializer and the reader catch their own errors and the inner
  \<^verbatim>\<open>try\<close> catches those of \<^verbatim>\<open>stat\<close>, so no call of the body reaches the outer
  \<^verbatim>\<open>catch\<close> and its answer 500.
\<close>

definition GET ::
  "collaborators \<Rightarrow> int \<Rightarrow> refusal \<Rightarrow> string \<Rightarrow> fsnode \<Rightarrow> string option
   \<Rightarrow> response \<times> fsnode" where
  "GET x now refuses cwd fs pathParam =
     (let requestedPath = (case pathParam of None \<Rightarrow> [] | Some p \<Rightarrow> p);
          userFilesDir = userFilesDirOf cwd;
          targetDir = (if requestedPath \<noteq> [] then join [userFilesDir, requestedPath]
                       else userFilesDir);
          fs1 = initializeUserFilesDirectory now refuses fs userFilesDir
      in case stat fs1 targetDir of
           Inl e \<Rightarrow> (respond 404 (Failure ''Directory not found''), fs1)
         | Inr stats \<Rightarrow>
             if \<not> isDirectory stats
             then (respond 400 (Failure ''Path is not a directory''), fs1)
             else
               let children' =
                     (case lookup fs1 (segments targetDir) of
                        Inl e \<Rightarrow> []
                      | Inr dir \<Rightarrow> fst (readDirectory x 0 dir requestedPath));
                   folderName =
                     (if requestedPath \<noteq> [] then
                        (case pop (split CHR ''/'' requestedPath) of
                           None \<Rightarrow> ''user-files''
                         | Some l \<Rightarrow> if l = [] then ''user-files'' else l)
                      else ''My Files'');
                   folderNode = FolderNode (if requestedPath \<noteq> [] then requestedPath else ''root'')
                                  folderName children' now now
               in (respond 200 (TreeData folderNode), fs1))"

text \<open>
  \<^verbatim>\<open>POST\<close>: the argument is the parsed body, \<open>None\<close> when \<^verbatim>\<open>req.json()\<close> throws.
  Destructuring \<^verbatim>\<open>null\<close> throws, and so does \<^verbatim>\<open>join\<close> on an argument that is not a
  string; the outer \<^verbatim>\<open>catch\<close> answers 500.
\<close>

definition POST ::
  "collaborators \<Rightarrow> int \<Rightarrow> refusal \<Rightarrow> string \<Rightarrow> fsnode \<Rightarrow> json option
   \<Rightarrow> response \<times> fsnode" where
  "POST x now refuses cwd fs body =
     (case body of
        None \<Rightarrow> (respond 500 (Failure ''Failed to create folder''), fs)
      | Some JNull \<Rightarrow> (respond 500 (Failure ''Failed to create folder''), fs)
      | Some j \<Rightarrow>
          let folderPath = getProp j ''folderPath''; name' = getProp j ''name''
          in (case (if \<not> truthy name' then None else asString name') of
                None \<Rightarrow> (respond 400 (Failure ''Folder name is required''), fs)
              | Some nm \<Rightarrow>
                  let userFilesDir = userFilesDirOf cwd;
                      fs1 = initializeUserFilesDirectory now refuses fs userFilesDir
                  in (case (if truthy folderPath
                            then map_option (\<lambda>fp. join [userFilesDir, fp, trim nm])
                                   (asString folderPath)
                            else Some (join [userFilesDir, trim nm])) of
                        None \<Rightarrow> (respond 500 (Failure ''Failed to create folder''), fs1)
                      | Some targetDir \<Rightarrow>
                          if (case stat fs1 targetDir of
                                Inl e \<Rightarrow> False
                              | Inr stats \<Rightarrow> isDirectory stats)
                          then (respond 409 (Failure ''Folder already exists''), fs1)
                          else
                            (case mkdir now refuses fs1 targetDir of
                               (Some e, fs2) \<Rightarrow>
                                 if e = EEXIST
                                 then (respond 409 (Failure ''Folder already exists''), fs2)
                                 else (respond 500 (Failure ''Failed to create folder''), fs2)
                             | (None, fs2) \<Rightarrow>
                                 (respond 200
                                    (Created ''Folder created successfully''
                                       (FolderNode (generateId x 0) (trim nm) [] now now)),
                                  fs2)))))"

text \<open>
  The characters of the handler's \<^verbatim>\<open>invalidChars\<close> pattern: less-than, greater-than, colon,
  double quote (0x22), slash, backslash (0x5C), bar, question mark and asterisk.
\<close>

definition invalidChars :: "char set" where
  "invalidChars =
     {CHR ''<'', CHR ''>'', CHR '':'', CHR 0x22, CHR ''/'', CHR 0x5C, CHR ''|'', CHR ''?'', CHR ''*''}"

text \<open>
  \<^verbatim>\<open>PATCH\<close>: the argument is the parsed body, as for \<^verbatim>\<open>POST\<close>. The payload of the
  answer 200 holds the message, \<^verbatim>\<open>oldPath\<close>, \<^verbatim>\<open>newPath\<close> and \<^verbatim>\<open>newName\<close>.
\<close>

definition PATCH :: "int \<Rightarrow> string \<Rightarrow> fsnode \<Rightarrow> json option \<Rightarrow> response \<times> fsnode" where
  "PATCH now cwd fs body =
     (case body of
        None \<Rightarrow> (respond 500 (Failure ''Failed to rename item''), fs)
      | Some JNull \<Rightarrow> (respond 500 (Failure ''Failed to rename item''), fs)
      | Some j \<Rightarrow>
          let oldPath = getProp j ''oldPath''; newName = getProp j ''newName''
          in (case (if \<not> truthy oldPath \<or> \<not> truthy newName then None
                    else (case (asString oldPath, asString newName) of
                            (Some op, Some nn) \<Rightarrow> Some (op, nn)
                          | _ \<Rightarrow> None)) of
                None \<Rightarrow> (respond 400 (Failure ''Old path and new name are required''), fs)
              | Some (op, nn) \<Rightarrow>
                  let trimmedNewName = trim nn
                  in if trimmedNewName = []
                     then (respond 400 (Failure ''New name cannot be empty''), fs)
                     else if \<exists>c \<in> set trimmedNewName. c \<in> invalidChars
                     then (respond 400 (Failure ''Name contains invalid characters''), fs)
                     else
                       let userFilesDir = userFilesDirOf cwd;
                           fullOldPath = join [userFilesDir, op]
                       in (case stat fs fullOldPath of
                             Inl e \<Rightarrow> (respond 404 (Failure ''File or folder not found''), fs)
                           | Inr st \<Rightarrow>
                               let parentDir = dirname fullOldPath;
                                   fullNewPath = join [parentDir, trimmedNewName]
                               in (case stat fs fullNewPath of
                                     Inr st' \<Rightarrow>
                                       (respond 409
                                          (Failure ''A file or folder with this name already exists''),
                                        fs)
                                   | Inl e \<Rightarrow>
                                       (case rename now fs fullOldPath fullNewPath of
                                          Inl e' \<Rightarrow>
                                            (respond 500 (Failure ''Failed to rename item''), fs)
                                        | Inr fs2 \<Rightarrow>
                                            (respond 200
                                               (Renamed ''Item renamed successfully'' op
                                                  (replace op (basename op) trimmedNewName)
                                                  trimmedNewName),
                                             fs2))))))"

section \<open>Notions used to state the properties\<close>

text \<open>A directory read fails when it cannot be listed or one of its entries cannot be examined.\<close>

fun readFails :: "fsnode \<Rightarrow> bool" where
  "readFails (DirN m r es) = (\<not> r \<or> (\<exists>e \<in> set es. snd e = DanglingN))"
| "readFails n = True"

fun entryMtime :: "fsnode \<Rightarrow> int" where
  "entryMtime (FileN m) = m_mtime m"
| "entryMtime (DirN m r es) = m_mtime m"
| "entryMtime DanglingN = 0"

fun isFolder :: "node \<Rightarrow> bool" where
  "isFolder (FolderNode i n ch c u) = True"
| "isFolder (FileNode i n s e t c u) = False"


text \<open>
  The order of a level: most recently modified first, and the nodes with one and the
  same time carry, in their order, the names of the entries with that time in the order
  in which the directory lists them. A folder node is in order when its children are,
  against the entries of the directory of its name; a tree is in order when every level
  of it is.
\<close>

fun orderedNode :: "node \<Rightarrow> (string \<times> fsnode) list \<Rightarrow> bool"
  and orderedLevel :: "node list \<Rightarrow> (string \<times> fsnode) list \<Rightarrow> bool"
where
  "orderedNode (FileNode i n s e t c u) es = True"
| "orderedNode (FolderNode i n ch c u) es =
     (\<exists>ke \<in> set es. fst ke = n \<and> orderedLevel ch (entries (snd ke)))"
| "orderedLevel ch es =
     (sorted_wrt (\<lambda>a b. updatedAt a \<ge> updatedAt b) ch \<and>
      (\<forall>t \<in> set (map updatedAt ch).
         map name (filter (\<lambda>n. updatedAt n = t) ch)
         = map fst (filter (\<lambda>e. entryMtime (snd e) = t) es)) \<and>
      (\<forall>c \<in> set ch. orderedNode c es))"

text \<open>The node that one pass of the reader's loop pushes, with the count of ids after it.\<close>

fun itemNode :: "collaborators \<Rightarrow> nat \<Rightarrow> string \<Rightarrow> fsnode \<Rightarrow> string \<Rightarrow> node \<times> nat" where
  "itemNode x k item (DirN m r cs) rel =
     (let rd = readDirectory x k (DirN m r cs) (if rel \<noteq> [] then join [rel, item] else item)
      in (FolderNode (generateId x (snd rd)) item (fst rd) (m_birthtime m) (m_mtime m), snd rd))"
| "itemNode x k item (FileN m) rel =
     (FileNode (generateId x k) item (m_size m) (extensionOf item) (getMimeType x item)
        (m_birthtime m) (m_mtime m), k)"
| "itemNode x k item DanglingN rel = (FileNode [] item 0 [] [] 0 0, k)"

text \<open>
  The requested path and the target directory of a read-tree request, as the handler
  computes them: \<^verbatim>\<open>searchParams.get('path') || ''\<close> and
  \<^verbatim>\<open>requestedPath ? join(userFilesDir, requestedPath) : userFilesDir\<close>.
\<close>

definition requestedPathOf :: "string option \<Rightarrow> string" where
  "requestedPathOf q = (case q of None \<Rightarrow> [] | Some p \<Rightarrow> p)"

definition targetDirOf :: "string \<Rightarrow> string option \<Rightarrow> string" where
  "targetDirOf cwd q =
     (if requestedPathOf q \<noteq> [] then join [userFilesDirOf cwd, requestedPathOf q]
      else userFilesDirOf cwd)"

text \<open>The root node of an answer that carries a tree.\<close>

fun rootOf :: "response \<Rightarrow> node option" where
  "rootOf r = (case payload r of TreeData n \<Rightarrow> Some n | _ \<Rightarrow> None)"

text \<open>
  The normal form of an absolute path: a slash, plain pieces joined by slashes, and
  possibly a closing slash. A piece is plain when it is a name: not empty, without a
  slash, and neither \<^verbatim>\<open>.\<close> nor \<^verbatim>\<open>..\<close>.
\<close>

definition plain :: "string \<Rightarrow> bool" where
  "plain p = (p \<noteq> [] \<and> CHR ''/'' \<notin> set p \<and> p \<noteq> ''.'' \<and> p \<noteq> ''..'')"

definition absPath :: "string list \<Rightarrow> bool \<Rightarrow> string" where
  "absPath ps t = CHR ''/'' # joinWith ''/'' ps @ (if t \<and> ps \<noteq> [] then ''/'' else [])"

subsection \<open>Example inputs\<close>

definition exampleCollab :: collaborators where
  "exampleCollab =
     \<lparr>generateId = (\<lambda>k. CHR ''n'' # replicate k CHR ''i''),
      getMimeType = (\<lambda>item. ''application/octet-stream'')\<rparr>"

definition meta0 :: meta where
  "meta0 = \<lparr>m_size = 0, m_birthtime = 0, m_mtime = 0\<rparr>"

definition metaAt :: "int \<Rightarrow> meta" where
  "metaAt t = \<lparr>m_size = 3, m_birthtime = 1, m_mtime = t\<rparr>"

text \<open>
  The process runs in \<^verbatim>\<open>/app\<close>; the user files hold the two default folders, a folder
  \<^verbatim>\<open>a\<close> with a file \<^verbatim>\<open>a\<close> in it, and a file \<^verbatim>\<open>a:b\<close>.
\<close>

definition homeFs :: fsnode where
  "homeFs =
     DirN meta0 True [(''app'', DirN meta0 True [(''public'', DirN meta0 True
       [(''user-files'', DirN meta0 True
          [(''Documents'', DirN meta0 True []),
           (''Images'', DirN meta0 True []),
           (''a'', DirN meta0 True [(''a'', FileN meta0)]),
           (''a:b'', FileN meta0)])])])]"

text \<open>No directory is refused; and the one at the pieces \<open>ps\<close> is, with the error \<open>e\<close>.\<close>

definition noRefusal :: refusal where
  "noRefusal = (\<lambda>ps. None)"

definition refuseAt :: "string list \<Rightarrow> errno \<Rightarrow> refusal" where
  "refuseAt ps e = (\<lambda>qs. if qs = ps then Some e else None)"

text \<open>
  The working directory before the first request, and one in which \<^verbatim>\<open>/app\<close> is a file.
\<close>

definition bareFs :: fsnode where
  "bareFs = DirN meta0 True [(''app'', DirN meta0 True [])]"

definition blockedFs :: fsnode where
  "blockedFs = DirN meta0 True [(''app'', FileN meta0)]"

text \<open>
  A directory with a file without extension, a directory that cannot be listed, and two
  entries modified at the same time.
\<close>

definition mixedDir :: fsnode where
  "mixedDir =
     DirN meta0 True
       [(''README'', FileN (metaAt 5)),
        (''locked'', DirN (metaAt 7) False [(''x'', FileN meta0)]),
        (''Notes.TXT'', FileN (metaAt 5)),
        (''old'', DirN (metaAt 2) True [(''link'', DanglingN)])]"

text \<open>The user files exist and are empty.\<close>

definition emptyHomeFs :: fsnode where
  "emptyHomeFs =
     DirN meta0 True [(''app'', DirN meta0 True [(''public'', DirN meta0 True
       [(''user-files'', DirN meta0 True [])])])]"

text \<open>The user files cannot be listed; and the user files hold \<^const>\<open>mixedDir\<close>'s entries.\<close>

definition lockedHomeFs :: fsnode where
  "lockedHomeFs =
     DirN meta0 True [(''app'', DirN meta0 True [(''public'', DirN meta0 True
       [(''user-files'', DirN meta0 False [(''x'', FileN meta0)])])])]"

definition mixedHomeFs :: fsnode where
  "mixedHomeFs =
     DirN meta0 True [(''app'', DirN meta0 True [(''public'', DirN meta0 True
       [(''user-files'', mixedDir)])])]"

text \<open>
  A directory \<^verbatim>\<open>d\<close> beside a file, with three files in it of which the first two were
  modified at the same time.
\<close>

definition nestedDir :: fsnode where
  "nestedDir =
     DirN meta0 True
       [(''d'', DirN (metaAt 7) True
                 [(''p'', FileN (metaAt 5)), (''q'', FileN (metaAt 5)), (''r'', FileN (metaAt 9))]),
        (''s'', FileN (metaAt 7))]"

section \<open>Properties of the reader\<close>

lemma readItems_step:
  "child \<noteq> DanglingN \<Longrightarrow>
   readItems x k ((item, child) # es) rel =
     (case readItems x (Suc (snd (itemNode x k item child rel))) es rel of
        (None, k2) \<Rightarrow> (None, k2)
      | (Some ns, k2) \<Rightarrow> (Some (fst (itemNode x k item child rel) # ns), k2))"
proof (cases child)
  case (FileN m)
  show ?thesis unfolding FileN by (simp add: Let_def case_prod_beta split: option.splits)
next
  case (DirN m r cs)
  show ?thesis unfolding DirN
    by (simp add: Let_def case_prod_beta del: readDirectory.simps split: option.splits)
qed simp

lemma readItems_stat_fails: "readItems x k ((item, DanglingN) # es) rel = (None, k)"
  by simp

lemma fst_readItems_step:
  "child \<noteq> DanglingN \<Longrightarrow>
   fst (readItems x k ((item, child) # es) rel) =
     map_option (\<lambda>ns. fst (itemNode x k item child rel) # ns)
       (fst (readItems x (Suc (snd (itemNode x k item child rel))) es rel))"
  by (simp add: readItems_step case_prod_beta split: option.splits del: readItems.simps)

lemma readItems_dangling:
  "\<exists>e \<in> set es. snd e = DanglingN \<Longrightarrow> fst (readItems x k es rel) = None"
proof (induction es arbitrary: k)
  case Nil
  then show ?case by simp
next
  case (Cons a es)
  obtain item child where a: "a = (item, child)" by (cases a)
  show ?case
  proof (cases "child = DanglingN")
    case True
    then show ?thesis by (simp add: a)
  next
    case False
    with Cons.prems a have "\<exists>e \<in> set es. snd e = DanglingN" by auto
    then have ih: "\<And>k. fst (readItems x k es rel) = None" using Cons.IH by blast
    show ?thesis unfolding a by (simp only: fst_readItems_step[OF False] ih option.map)
  qed
qed

lemma fst_readDirectory_DirN:
  "fst (readDirectory x k (DirN m r es) rel) =
     (if \<not> r then [] else case fst (readItems x k es rel) of None \<Rightarrow> [] | Some ns \<Rightarrow> sortByLastUpdate ns)"
  by (simp split: prod.splits option.splits)

lemma readDirectory_fails: "readFails dir \<Longrightarrow> fst (readDirectory x k dir rel) = []"
proof (cases dir)
  case (DirN m r es)
  assume "readFails dir"
  then show ?thesis unfolding DirN fst_readDirectory_DirN
    using readItems_dangling[of es x k rel] by auto
qed simp_all

lemma itemNode_name: "name (fst (itemNode x k item child rel)) = item"
  by (cases child) (simp_all add: Let_def del: readDirectory.simps)

lemma itemNode_updatedAt: "child \<noteq> DanglingN \<Longrightarrow> updatedAt (fst (itemNode x k item child rel)) = entryMtime child"
  by (cases child) (simp_all add: Let_def del: readDirectory.simps)

lemma itemNode_isFolder: "isFolder (fst (itemNode x k item child rel)) = isDir child"
  by (cases child) (simp_all add: Let_def del: readDirectory.simps)

lemma itemNode_children:
  "children (fst (itemNode x k item child rel)) =
     (if isDir child then fst (readDirectory x k child (if rel \<noteq> [] then join [rel, item] else item)) else [])"
  by (cases child) (simp_all add: Let_def del: readDirectory.simps)

text \<open>When every entry can be examined, the loop pushes one node per entry, in order.\<close>

lemma readItems_complete:
  "\<forall>e \<in> set es. snd e \<noteq> DanglingN \<Longrightarrow>
   \<exists>ns. fst (readItems x k es rel) = Some ns \<and> map name ns = map fst es
        \<and> map updatedAt ns = map (\<lambda>e. entryMtime (snd e)) es
        \<and> map isFolder ns = map (\<lambda>e. isDir (snd e)) es"
proof (induction es arbitrary: k)
  case Nil
  then show ?case by simp
next
  case (Cons a es)
  obtain item child where a: "a = (item, child)" by (cases a)
  from Cons.prems a have nd: "child \<noteq> DanglingN" by auto
  from Cons.prems have "\<forall>e \<in> set es. snd e \<noteq> DanglingN" by simp
  from Cons.IH[OF this, of "Suc (snd (itemNode x k item child rel))"]
  obtain ns where ns: "fst (readItems x (Suc (snd (itemNode x k item child rel))) es rel) = Some ns"
      "map name ns = map fst es" "map updatedAt ns = map (\<lambda>e. entryMtime (snd e)) es"
      "map isFolder ns = map (\<lambda>e. isDir (snd e)) es"
    by blast
  show ?case unfolding a
    by (simp only: fst_readItems_step[OF nd] ns option.map)
       (simp add: ns itemNode_name itemNode_updatedAt[OF nd] itemNode_isFolder)
qed

lemma sortByLastUpdate_set: "set (sortByLastUpdate ns) = set ns"
  by (simp add: sortByLastUpdate_def)

lemma sortByLastUpdate_sorted:
  "sorted_wrt (\<lambda>a b. updatedAt a \<ge> updatedAt b) (sortByLastUpdate ns)"
proof -
  have "sorted (map (\<lambda>n. - updatedAt n) (sort_key (\<lambda>n. - updatedAt n) ns))"
    by (rule sorted_sort_key)
  then show ?thesis
    by (simp add: sortByLastUpdate_def sorted_map)
qed

lemma sortByLastUpdate_stable:
  "filter (\<lambda>n. updatedAt n = t) (sortByLastUpdate ns) = filter (\<lambda>n. updatedAt n = t) ns"
proof -
  have "filter (\<lambda>n. - updatedAt n = - t) (sort_key (\<lambda>n. - updatedAt n) ns)
        = filter (\<lambda>n. - updatedAt n = - t) ns"
    by (rule sort_key_stable)
  then show ?thesis by (simp add: sortByLastUpdate_def)
qed

lemma split_no_sep: "sep \<notin> set s \<Longrightarrow> split sep s = [s]"
  by (induction s) auto

lemma split_not_Nil: "split sep s \<noteq> []"
  by (induction s) (auto split: list.splits)

lemma extensionOf_last: "extensionOf item = toLowerCase (last (split CHR ''.'' item))"
  by (simp add: extensionOf_def pop_def split_not_Nil)

lemma extensionOf_no_dot: "CHR ''.'' \<notin> set item \<Longrightarrow> extensionOf item = toLowerCase item"
  by (simp add: extensionOf_last split_no_sep)

lemma readItems_member:
  assumes "\<forall>e \<in> set es. snd e \<noteq> DanglingN"
    and "fst (readItems x k es rel) = Some ns"
    and "(item, sub) \<in> set es"
  shows "\<exists>k'. fst (itemNode x k' item sub rel) \<in> set ns"
  using assms
proof (induction es arbitrary: k ns)
  case Nil
  then show ?case by simp
next
  case (Cons a es)
  obtain item' child where a: "a = (item', child)" by (cases a)
  from Cons.prems(1) a have nd: "child \<noteq> DanglingN" by auto
  from Cons.prems(2) obtain ns' where
    ns': "fst (readItems x (Suc (snd (itemNode x k item' child rel))) es rel) = Some ns'"
    and ns: "ns = fst (itemNode x k item' child rel) # ns'"
    unfolding a fst_readItems_step[OF nd] by auto
  show ?case
  proof (cases "(item, sub) = a")
    case True
    then show ?thesis unfolding ns a by auto
  next
    case False
    with Cons.prems(3) have "(item, sub) \<in> set es" by simp
    from Cons.IH[OF _ ns' this] Cons.prems(1) show ?thesis unfolding ns by auto
  qed
qed

lemma map_filter_agree:
  "map f xs = map g ys \<Longrightarrow> map p xs = map q ys \<Longrightarrow>
   map f (filter (\<lambda>x. p x = t) xs) = map g (filter (\<lambda>y. q y = t) ys)"
proof (induction xs arbitrary: ys)
  case Nil
  then show ?case by simp
next
  case (Cons x xs)
  then obtain y ys' where ys: "ys = y # ys'" by (cases ys) auto
  with Cons.prems have "f x = g y" "p x = q y" "map f xs = map g ys'" "map p xs = map q ys'"
    by simp_all
  with Cons.IH[of ys'] show ?case by (simp add: ys)
qed

lemma GET_status: "status (fst (GET x now refuses cwd fs q)) \<in> {200, 400, 404}"
  unfolding GET_def Let_def respond_def
  by (simp split: sum.splits)

lemma stat_lookup:
  "stat fs path = Inr st \<Longrightarrow> \<exists>n. lookup fs (segments path) = Inr n \<and> statNode n = Inr st"
  unfolding stat_def by (auto split: sum.splits if_splits)


lemma sortByLastUpdate_mset: "mset (sortByLastUpdate ns) = mset ns"
  by (simp add: sortByLastUpdate_def)

text \<open>The loop pushes the node of each entry, in the order of the entries.\<close>

lemma readItems_positional:
  "fst (readItems x k es rel) = Some ns \<Longrightarrow>
   list_all2 (\<lambda>n e. snd e \<noteq> DanglingN \<and> (\<exists>k'. n = fst (itemNode x k' (fst e) (snd e) rel))) ns es"
proof (induction es arbitrary: k ns)
  case Nil
  then show ?case by simp
next
  case (Cons a es)
  obtain item child where a: "a = (item, child)" by (cases a)
  have nd: "child \<noteq> DanglingN"
  proof
    assume "child = DanglingN"
    with Cons.prems a show False by simp
  qed
  from Cons.prems obtain ns' where
    ns': "fst (readItems x (Suc (snd (itemNode x k item child rel))) es rel) = Some ns'"
    and ns: "ns = fst (itemNode x k item child rel) # ns'"
    unfolding a fst_readItems_step[OF nd] by auto
  from Cons.IH[OF ns'] nd show ?case unfolding ns a by auto
qed

lemma list_all2_member: "list_all2 P xs ys \<Longrightarrow> x \<in> set xs \<Longrightarrow> \<exists>y \<in> set ys. P x y"
  by (induction rule: list_all2_induct) auto




declare orderedLevel.simps [simp del]

lemma orderedLevel_Nil: "orderedLevel [] es"
  by (simp add: orderedLevel.simps)

text \<open>What the reader returns for a directory is in order, at every level.\<close>

lemma readDirectory_ordered:
  "orderedLevel (fst (readDirectory x k dir rel)) (entries dir)"
proof (induction dir arbitrary: k rel)
  case (FileN m)
  show ?case by (simp add: orderedLevel_Nil)
next
  case DanglingN
  show ?case by (simp add: orderedLevel_Nil)
next
  case (DirN m r es)
  show ?case
  proof (cases "readFails (DirN m r es)")
    case True
    from readDirectory_fails[OF True] show ?thesis by (simp add: orderedLevel_Nil)
  next
    case False
    then have h: "r" "\<forall>e \<in> set es. snd e \<noteq> DanglingN" by auto
    then obtain ns where ns: "fst (readItems x k es rel) = Some ns"
      "map name ns = map fst es" "map updatedAt ns = map (\<lambda>e. entryMtime (snd e)) es"
      using readItems_complete[of es x k rel] by blast
    have rd: "fst (readDirectory x k (DirN m r es) rel) = sortByLastUpdate ns"
      unfolding fst_readDirectory_DirN using h ns(1) by simp
    have ties: "map name (filter (\<lambda>n. updatedAt n = t) (sortByLastUpdate ns))
                = map fst (filter (\<lambda>e. entryMtime (snd e) = t) es)" for t
      by (simp add: sortByLastUpdate_stable map_filter_agree[OF ns(2) ns(3)])
    have nodes: "orderedNode c es" if "c \<in> set ns" for c
    proof -
      from list_all2_member[OF readItems_positional[OF ns(1)] that] obtain e where
        e: "e \<in> set es" "snd e \<noteq> DanglingN" "\<exists>k'. c = fst (itemNode x k' (fst e) (snd e) rel)"
        by blast
      then obtain k' where c: "c = fst (itemNode x k' (fst e) (snd e) rel)" by blast
      obtain item child where ic: "e = (item, child)" by (cases e)
      show ?thesis
      proof (cases child)
        case (FileN m')
        then show ?thesis by (simp add: c ic)
      next
        case DanglingN
        with e(2) ic show ?thesis by simp
      next
        case d: (DirN m' r' cs)
        have "child \<in> Basic_BNFs.snds e" by (simp add: ic snds.simps)
        from DirN.IH[OF e(1) this, of k' "if rel \<noteq> [] then join [rel, item] else item"]
        have "orderedLevel (fst (readDirectory x k' (DirN m' r' cs)
                 (if rel \<noteq> [] then join [rel, item] else item))) cs"
          by (simp add: d)
        then have w: "fst e = item \<and> orderedLevel (fst (readDirectory x k' (DirN m' r' cs)
                 (if rel \<noteq> [] then join [rel, item] else item))) (entries (snd e))"
          by (simp add: ic d)
        have "c = FolderNode (generateId x (snd (readDirectory x k' (DirN m' r' cs)
                                   (if rel \<noteq> [] then join [rel, item] else item))))
                    item (fst (readDirectory x k' (DirN m' r' cs)
                                   (if rel \<noteq> [] then join [rel, item] else item)))
                    (m_birthtime m') (m_mtime m')"
          unfolding c ic d by (simp add: Let_def del: readDirectory.simps)
        moreover have "\<exists>ke \<in> set es. fst ke = item \<and>
             orderedLevel (fst (readDirectory x k' (DirN m' r' cs)
                 (if rel \<noteq> [] then join [rel, item] else item))) (entries (snd ke))"
          using w e(1) by blast
        ultimately show ?thesis by (simp del: readDirectory.simps)
      qed
    qed
    show ?thesis
      unfolding rd orderedLevel.simps[of "sortByLastUpdate ns"]
      using ties nodes by (simp add: sortByLastUpdate_sorted sortByLastUpdate_set)
  qed
qed

section \<open>Properties of \<^verbatim>\<open>mkdir\<close>\<close>

lemma lookupIn_Nil: "lookupIn [] ps = Inl ENOENT"
  by (cases ps) simp_all

lemma lookupIn_Cons:
  "lookupIn ((k, c) # es) (p # ps) =
     (if k = p then (if ps = [] then Inr c else lookup c ps) else lookupIn es (p # ps))"
  by (cases c; cases ps) simp_all

lemma lookup_DirN: "ps \<noteq> [] \<Longrightarrow> lookup (DirN m r es) ps = lookupIn es ps"
  by (cases ps) simp_all

lemma touched_same: "touched now m es es = m"
  by (simp add: touched_def)

text \<open>Whether it fails or not, \<^verbatim>\<open>mkdir\<close> keeps every entry there is, and every file as it is.\<close>

lemma mkdirIn_preserves:
  "mkdirIn now refuses dir es q = (res, es') \<Longrightarrow> lookupIn es p = Inr n \<Longrightarrow>
   \<exists>n'. lookupIn es' p = Inr n' \<and> (isDir n \<longrightarrow> isDir n') \<and> (\<not> isDir n \<longrightarrow> n' = n)"
proof (induction now refuses dir es q arbitrary: res es' p n rule: mkdirIn.induct)
  case (1 now refuses dir es)
  then show ?case by auto
next
  case (2 now refuses dir p' ps')
  then show ?case by (simp add: lookupIn_Nil)
next
  case (3 now refuses dir k c es p' ps')
  from "3.prems"(2) obtain a as where p: "p = a # as" by (cases p) auto
  show ?case
  proof (cases "k = p'")
    case True
    show ?thesis
    proof (cases c)
      case (FileN m)
      with True "3.prems" show ?thesis by (auto split: if_splits)
    next
      case DanglingN
      with True "3.prems" show ?thesis by auto
    next
      case (DirN m r cs)
      obtain res0 cs' where cs': "mkdirIn now refuses (dir @ [p']) cs ps' = (res0, cs')"
        by (cases "mkdirIn now refuses (dir @ [p']) cs ps'")
      with True DirN "3.prems"(1) have
        es': "es' = (k, DirN (touched now m cs cs') r cs') # es" by simp
      show ?thesis
      proof (cases "k = a")
        case False
        with "3.prems"(2) show ?thesis by (simp add: p es' lookupIn_Cons)
      next
        case ka: True
        show ?thesis
        proof (cases "as = []")
          case True
          with ka "3.prems"(2) show ?thesis by (auto simp: p es' DirN lookupIn_Cons)
        next
          case False
          with ka "3.prems"(2) have "lookupIn cs as = Inr n"
            by (simp add: p DirN lookup_DirN)
          from "3.IH"(1)[OF True DirN cs' this] False ka show ?thesis
            by (simp add: p es' lookup_DirN)
        qed
      qed
    qed
  next
    case False
    obtain res0 es0 where es0: "mkdirIn now refuses dir es (p' # ps') = (res0, es0)"
      by (cases "mkdirIn now refuses dir es (p' # ps')")
    with False "3.prems"(1) have es': "es' = (k, c) # es0" by simp
    show ?thesis
    proof (cases "k = a")
      case True
      with "3.prems"(2) show ?thesis by (auto simp: p es' lookupIn_Cons)
    next
      case ka: False
      with "3.prems"(2) have "lookupIn es p = Inr n" by (simp add: p lookupIn_Cons)
      from "3.IH"(2)[OF False es0 this] ka show ?thesis by (simp add: p es' lookupIn_Cons)
    qed
  qed
qed

lemma mkdir_preserves:
  assumes "mkdir now refuses fs path = (res, fs')" and "lookup fs p = Inr n"
  shows "\<exists>n'. lookup fs' p = Inr n' \<and> (isDir n \<longrightarrow> isDir n') \<and> (\<not> isDir n \<longrightarrow> n' = n)"
proof (cases fs)
  case (FileN m)
  with assms show ?thesis by (auto simp: mkdir_def)
next
  case DanglingN
  with assms show ?thesis by (auto simp: mkdir_def)
next
  case (DirN m r es)
  obtain res0 es' where es': "mkdirIn now refuses [] es (segments path) = (res0, es')"
    by (cases "mkdirIn now refuses [] es (segments path)")
  with DirN assms(1) have fs': "fs' = DirN (touched now m es es') r es'"
    by (simp add: mkdir_def)
  show ?thesis
  proof (cases p)
    case Nil
    with assms(2) show ?thesis by (auto simp: DirN fs')
  next
    case (Cons a as)
    with assms(2) have "lookupIn es p = Inr n" by (simp add: DirN)
    from mkdirIn_preserves[OF es' this] show ?thesis by (simp add: fs' Cons)
  qed
qed

lemma initialize_preserves:
  assumes "lookup fs p = Inr n"
  shows "\<exists>n'. lookup (initializeUserFilesDirectory now refuses fs u) p = Inr n' \<and>
              (isDir n \<longrightarrow> isDir n') \<and> (\<not> isDir n \<longrightarrow> n' = n)"
proof -
  define P where "P f = (\<exists>n'. lookup f p = Inr n' \<and> (isDir n \<longrightarrow> isDir n') \<and> (\<not> isDir n \<longrightarrow> n' = n))"
    for f
  have step: "P f'" if m: "mkdir now refuses f q = (res, f')" and pf: "P f" for f f' q res
  proof -
    from pf obtain n1 where n1: "lookup f p = Inr n1" "isDir n \<longrightarrow> isDir n1" "\<not> isDir n \<longrightarrow> n1 = n"
      unfolding P_def by blast
    from mkdir_preserves[OF m n1(1)] n1(2,3) show ?thesis unfolding P_def by auto
  qed
  have base: "P fs" unfolding P_def using assms by simp
  obtain r1 fs1 where m1: "mkdir now refuses fs u = (r1, fs1)"
    by (cases "mkdir now refuses fs u")
  obtain r2 fs2 where m2: "mkdir now refuses fs1 (join [u, ''Documents'']) = (r2, fs2)"
    by (cases "mkdir now refuses fs1 (join [u, ''Documents''])")
  obtain r3 fs3 where m3: "mkdir now refuses fs2 (join [u, ''Images'']) = (r3, fs3)"
    by (cases "mkdir now refuses fs2 (join [u, ''Images''])")
  note p1 = step[OF m1 base]
  note p2 = step[OF m2 p1]
  note p3 = step[OF m3 p2]
  have "initializeUserFilesDirectory now refuses fs u \<in> {fs1, fs2, fs3}"
    using m1 m2 m3
    by (simp add: initializeUserFilesDirectory_def split: option.splits sum.splits)
  with p1 p2 p3 have "P (initializeUserFilesDirectory now refuses fs u)" by auto
  then show ?thesis unfolding P_def .
qed

text \<open>A file at the path makes \<^verbatim>\<open>mkdir\<close> fail with \<^verbatim>\<open>EEXIST\<close>, whatever the system refuses.\<close>

lemma mkdirIn_file_exists:
  "lookupIn es ps = Inr (FileN m) \<Longrightarrow> mkdirIn now refuses dir es ps = (Some EEXIST, es)"
proof (induction es ps arbitrary: dir rule: lookupIn.induct)
  case (5 k m' r cs es p ps)
  then show ?case by (auto split: if_splits simp: touched_same)
qed (auto split: if_splits)

lemma mkdir_file_exists:
  "lookup fs (segments path) = Inr (FileN m) \<Longrightarrow> mkdir now refuses fs path = (Some EEXIST, fs)"
proof (cases fs)
  case (DirN m' r es)
  assume a: "lookup fs (segments path) = Inr (FileN m)"
  then have "segments path \<noteq> []" using DirN by (cases "segments path") auto
  with a DirN have "lookupIn es (segments path) = Inr (FileN m)" by (simp add: lookup_DirN)
  from mkdirIn_file_exists[OF this] show ?thesis by (simp add: mkdir_def DirN touched_same)
next
  case (FileN m')
  assume "lookup fs (segments path) = Inr (FileN m)"
  with FileN show ?thesis by (cases "segments path") (simp_all add: mkdir_def)
next
  case DanglingN
  assume "lookup fs (segments path) = Inr (FileN m)"
  with DanglingN show ?thesis by (cases "segments path") (simp_all add: mkdir_def)
qed

lemma statNode_file: "statNode n = Inr st \<Longrightarrow> \<not> isDirectory st \<Longrightarrow> \<exists>m. n = FileN m"
  by (cases n) auto

text \<open>When \<^verbatim>\<open>mkdir\<close> succeeds there is a directory at the path.\<close>

lemma newDirs_isDir: "isDir (snd (newDirs now refuses dir ps))"
  by (cases ps) (auto split: option.splits prod.splits)

lemma newDirs_made:
  "newDirs now refuses dir ps = (None, d) \<Longrightarrow> lookup d ps = Inr (DirN (freshMeta now) True [])"
proof (induction ps arbitrary: dir d)
  case Nil
  then show ?case by auto
next
  case (Cons p ps)
  from Cons.prems obtain d' where
    d': "newDirs now refuses (dir @ [p]) ps = (None, d')"
    and d: "d = DirN (freshMeta now) True [(p, d')]"
    by (auto split: option.splits prod.splits)
  from Cons.IH[OF d'] show ?case by (auto simp: d lookupIn_Cons)
qed

lemma mkdirIn_makes_dir:
  "mkdirIn now refuses dir es ps = (None, es') \<Longrightarrow> ps \<noteq> [] \<Longrightarrow>
   \<exists>m r cs. lookupIn es' ps = Inr (DirN m r cs)"
proof (induction now refuses dir es ps arbitrary: es' rule: mkdirIn.induct)
  case (1 now refuses dir es)
  then show ?case by simp
next
  case (2 now refuses dir p ps)
  from "2.prems"(1) obtain d where
    d: "newDirs now refuses (dir @ [p]) ps = (None, d)" and es': "es' = [(p, d)]"
    by (auto split: option.splits prod.splits)
  from newDirs_made[OF d] newDirs_isDir[of now refuses "dir @ [p]" ps] d
  show ?case by (cases d) (auto simp: es' lookupIn_Cons)
next
  case (3 now refuses dir k c es p ps)
  show ?case
  proof (cases "k = p")
    case False
    with "3.prems"(1) obtain es0 where
      es0: "mkdirIn now refuses dir es (p # ps) = (None, es0)" and es': "es' = (k, c) # es0"
      by (auto split: prod.splits)
    from "3.IH"(2)[OF False es0] False show ?thesis by (simp add: es' lookupIn_Cons)
  next
    case True
    show ?thesis
    proof (cases c)
      case (FileN m)
      with True "3.prems"(1) show ?thesis by (simp split: if_splits)
    next
      case DanglingN
      with True "3.prems"(1) show ?thesis by simp
    next
      case (DirN m r cs)
      with True "3.prems"(1) obtain cs' where
        cs': "mkdirIn now refuses (dir @ [p]) cs ps = (None, cs')"
        and es': "es' = (k, DirN (touched now m cs cs') r cs') # es"
        by (auto split: prod.splits)
      show ?thesis
      proof (cases "ps = []")
        case ps: True
        then show ?thesis using True by (simp add: es' lookupIn_Cons)
      next
        case ps: False
        from "3.IH"(1)[OF True DirN cs' ps] True ps show ?thesis
          by (simp add: es' lookupIn_Cons lookup_DirN)
      qed
    qed
  qed
qed

lemma mkdir_makes_dir:
  assumes "mkdir now refuses fs path = (None, fs')"
  shows "\<exists>m r cs. lookup fs' (segments path) = Inr (DirN m r cs)"
proof (cases fs)
  case (FileN m)
  with assms show ?thesis by (simp add: mkdir_def)
next
  case DanglingN
  with assms show ?thesis by (simp add: mkdir_def)
next
  case (DirN m r es)
  with assms obtain es' where es': "mkdirIn now refuses [] es (segments path) = (None, es')"
    and fs': "fs' = DirN (touched now m es es') r es'"
    by (auto simp: mkdir_def split: prod.splits)
  show ?thesis
  proof (cases "segments path = []")
    case True
    then show ?thesis by (simp add: fs')
  next
    case False
    from mkdirIn_makes_dir[OF es' False] False show ?thesis by (simp add: fs' lookup_DirN)
  qed
qed

text \<open>
  A new entry \<open>d\<close> in an existing directory: \<^verbatim>\<open>mkdir\<close> fails exactly when the system
  refuses it, and then changes nothing; else the directory gets the empty directory \<open>d\<close>
  as its last entry.
\<close>

lemma mkdirIn_single:
  "d \<notin> fst ` set cs \<Longrightarrow>
   mkdirIn now refuses dir cs [d] =
     (refuses (dir @ [d]),
      if refuses (dir @ [d]) = None then cs @ [(d, DirN (freshMeta now) True [])] else cs)"
  by (induction cs) (auto split: option.splits)

lemma touched_grown: "touched now m cs (cs @ [e]) = m\<lparr>m_mtime := now\<rparr>"
  by (simp add: touched_def)

lemma mkdirIn_new_child:
  "lookupIn es ps = Inr (DirN m r cs) \<Longrightarrow> d \<notin> fst ` set cs \<Longrightarrow>
   \<exists>es'. mkdirIn now refuses dir es (ps @ [d]) = (refuses (dir @ ps @ [d]), es') \<and>
         length es' = length es \<and>
         (if refuses (dir @ ps @ [d]) = None
          then lookupIn es' ps
               = Inr (DirN (m\<lparr>m_mtime := now\<rparr>) r (cs @ [(d, DirN (freshMeta now) True [])]))
          else es' = es)"
proof (induction es ps arbitrary: dir rule: lookupIn.induct)
  case (1 es)
  then show ?case by simp
next
  case (2 p ps)
  then show ?case by simp
next
  case (3 k m' es p ps)
  show ?case
  proof (cases "k = p")
    case True
    with "3.prems"(1) show ?thesis by (simp split: if_splits)
  next
    case False
    with "3.prems"(1) have "lookupIn es (p # ps) = Inr (DirN m r cs)" by simp
    from "3.IH"[OF False this "3.prems"(2), of dir] False show ?thesis by auto
  qed
next
  case (4 k es p ps)
  show ?case
  proof (cases "k = p")
    case True
    with "4.prems"(1) show ?thesis by (simp split: if_splits)
  next
    case False
    with "4.prems"(1) have "lookupIn es (p # ps) = Inr (DirN m r cs)" by simp
    from "4.IH"[OF False this "4.prems"(2), of dir] False show ?thesis by auto
  qed
next
  case (5 k m' r' cs' es p ps)
  show ?case
  proof (cases "k = p")
    case False
    with "5.prems"(1) have "lookupIn es (p # ps) = Inr (DirN m r cs)" by simp
    from "5.IH"(2)[OF False this "5.prems"(2), of dir] False show ?thesis by auto
  next
    case True
    show ?thesis
    proof (cases "ps = []")
      case ps: True
      with True "5.prems"(1) have e: "m' = m" "r' = r" "cs' = cs" by simp_all
      show ?thesis
        using True ps mkdirIn_single[OF "5.prems"(2), of now refuses "dir @ [p]"]
        by (simp add: e touched_grown touched_same)
    next
      case ps: False
      with True "5.prems"(1) have "lookupIn cs' ps = Inr (DirN m r cs)" by simp
      from "5.IH"(1)[OF True ps this "5.prems"(2), of "dir @ [p]"] obtain cs2 where
        cs2: "mkdirIn now refuses (dir @ [p]) cs' (ps @ [d]) = (refuses (dir @ p # ps @ [d]), cs2)"
          "length cs2 = length cs'"
          "if refuses (dir @ p # ps @ [d]) = None
           then lookupIn cs2 ps
                = Inr (DirN (m\<lparr>m_mtime := now\<rparr>) r (cs @ [(d, DirN (freshMeta now) True [])]))
           else cs2 = cs'"
        by auto
      then show ?thesis using True ps by (auto simp: touched_def)
    qed
  qed
qed

lemma mkdir_new_child:
  assumes "lookup fs ps = Inr (DirN m r cs)" and "ps \<noteq> []" and "d \<notin> fst ` set cs"
    and "segments path = ps @ [d]"
  shows "\<exists>fs'. mkdir now refuses fs path = (refuses (ps @ [d]), fs') \<and>
           (if refuses (ps @ [d]) = None
            then lookup fs' ps
                 = Inr (DirN (m\<lparr>m_mtime := now\<rparr>) r (cs @ [(d, DirN (freshMeta now) True [])]))
            else fs' = fs)"
proof (cases fs)
  case (FileN m')
  with assms(1,2) show ?thesis by (cases ps) simp_all
next
  case DanglingN
  with assms(1,2) show ?thesis by (cases ps) simp_all
next
  case (DirN m' r' es)
  with assms(1,2) have "lookupIn es ps = Inr (DirN m r cs)" by (simp add: lookup_DirN)
  from mkdirIn_new_child[OF this assms(3), of now refuses "[]"] obtain es' where
    es': "mkdirIn now refuses [] es (ps @ [d]) = (refuses (ps @ [d]), es')" "length es' = length es"
      "if refuses (ps @ [d]) = None
       then lookupIn es' ps
            = Inr (DirN (m\<lparr>m_mtime := now\<rparr>) r (cs @ [(d, DirN (freshMeta now) True [])]))
       else es' = es"
    by auto
  then show ?thesis using assms(2,4) by (auto simp: mkdir_def DirN lookup_DirN touched_def)
qed

lemma lookupIn_append:
  "lookupIn es ps = Inr n \<Longrightarrow> qs \<noteq> [] \<Longrightarrow> lookupIn es (ps @ qs) = lookup n qs"
proof (induction es ps rule: lookupIn.induct)
  case (3 k m es p ps)
  then show ?case by (cases qs) (auto split: if_splits)
next
  case (4 k es p ps)
  then show ?case by (cases qs) (auto split: if_splits)
next
  case (5 k m r cs es p ps)
  then show ?case by (cases qs) (auto split: if_splits simp: lookup_DirN)
qed simp_all

lemma lookup_append:
  assumes "lookup fs ps = Inr n"
  shows "lookup fs (ps @ qs) = lookup n qs"
proof (cases "ps = [] \<or> qs = []")
  case True
  with assms show ?thesis by auto
next
  case False
  then have ps: "ps \<noteq> []" and qs: "qs \<noteq> []" by simp_all
  show ?thesis
  proof (cases fs)
    case (DirN m r es)
    with assms ps have "lookupIn es ps = Inr n" by (simp add: lookup_DirN)
    from lookupIn_append[OF this qs] ps show ?thesis by (simp add: DirN lookup_DirN)
  next
    case (FileN m)
    with assms ps show ?thesis by (cases ps) simp_all
  next
    case DanglingN
    with assms ps show ?thesis by (cases ps) simp_all
  qed
qed

lemma readdir_empty:
  "readdir fs path = Inr [] \<Longrightarrow> \<exists>m. lookup fs (segments path) = Inr (DirN m True [])"
  unfolding readdir_def
  by (auto split: sum.splits fsnode.splits if_splits elim: readdirNode.elims)

lemma stat_dir:
  "lookup fs (segments path) = Inr n \<Longrightarrow> isDir n \<Longrightarrow> \<exists>st. stat fs path = Inr st \<and> isDirectory st"
  by (cases n) (simp_all add: stat_def)

lemma POST_not_null:
  "j \<noteq> JNull \<Longrightarrow>
   POST x now refuses cwd fs (Some j) =
     (case (if \<not> truthy (getProp j ''name'') then None else asString (getProp j ''name'')) of
        None \<Rightarrow> (respond 400 (Failure ''Folder name is required''), fs)
      | Some nm \<Rightarrow>
          (case (if truthy (getProp j ''folderPath'')
                 then map_option (\<lambda>fp. join [userFilesDirOf cwd, fp, trim nm])
                        (asString (getProp j ''folderPath''))
                 else Some (join [userFilesDirOf cwd, trim nm])) of
             None \<Rightarrow> (respond 500 (Failure ''Failed to create folder''),
                       initializeUserFilesDirectory now refuses fs (userFilesDirOf cwd))
           | Some targetDir \<Rightarrow>
               if (case stat (initializeUserFilesDirectory now refuses fs (userFilesDirOf cwd)) targetDir of
                     Inl e \<Rightarrow> False
                   | Inr stats \<Rightarrow> isDirectory stats)
               then (respond 409 (Failure ''Folder already exists''),
                     initializeUserFilesDirectory now refuses fs (userFilesDirOf cwd))
               else
                 (case mkdir now refuses
                         (initializeUserFilesDirectory now refuses fs (userFilesDirOf cwd)) targetDir of
                    (Some e, fs2) \<Rightarrow>
                      if e = EEXIST
                      then (respond 409 (Failure ''Folder already exists''), fs2)
                      else (respond 500 (Failure ''Failed to create folder''), fs2)
                  | (None, fs2) \<Rightarrow>
                      (respond 200
                         (Created ''Folder created successfully''
                            (FolderNode (generateId x 0) (trim nm) [] now now)),
                       fs2))))"
  by (cases j) (simp_all add: POST_def Let_def split: option.splits)

text \<open>
  A name that is missing, not a string or the empty string is answered 400 before the
  filesystem is touched.
\<close>

lemma POST_name_required:
  assumes "j \<noteq> JNull"
    and "asString (getProp j ''name'') = None \<or> getProp j ''name'' = Some (JStr [])"
  shows "POST x now refuses cwd fs (Some j) = (respond 400 (Failure ''Folder name is required''), fs)"
  unfolding POST_not_null[OF assms(1)] using assms(2) by auto

section \<open>Properties of paths\<close>

lemma split_append: "split c (a @ c # b) = split c a @ split c b"
  by (induction a) (auto split: list.splits simp: split_not_Nil)

lemma split_piece_no_sep: "p \<in> set (split c s) \<Longrightarrow> c \<notin> set p"
  by (induction s arbitrary: p) (auto split: if_splits list.splits)

lemma segments_Nil: "segments [] = []"
  by (simp add: segments_def)

lemma segments_append: "segments (a @ CHR ''/'' # b) = segments a @ segments b"
  by (simp add: segments_def split_append)

lemma segments_plain: "plain p \<Longrightarrow> segments p = [p]"
  by (simp add: segments_def plain_def split_no_sep)

lemma joinWith_Cons: "joinWith sep (p # ps) = (if ps = [] then p else p @ sep @ joinWith sep ps)"
  by (cases ps) simp_all

lemma joinWith_snoc: "ps \<noteq> [] \<Longrightarrow> joinWith sep (ps @ [d]) = joinWith sep ps @ sep @ d"
  by (induction ps) (auto simp: joinWith_Cons)

lemma joinWith_eq_Nil: "list_all plain ps \<Longrightarrow> (joinWith ''/'' ps = []) = (ps = [])"
  by (cases ps) (auto simp: joinWith_Cons plain_def)

lemma segments_joinWith: "list_all plain ps \<Longrightarrow> segments (joinWith ''/'' ps) = ps"
proof (induction ps)
  case Nil
  show ?case by (simp add: segments_Nil)
next
  case (Cons p ps)
  then show ?case
    by (cases "ps = []") (simp_all add: joinWith_Cons segments_plain segments_append)
qed

lemma segments_absPath: "list_all plain ps \<Longrightarrow> segments (absPath ps t) = ps"
proof -
  assume a: "list_all plain ps"
  have "segments (joinWith ''/'' ps @ ''/'') = ps"
    using segments_append[of "joinWith ''/'' ps" "[]"] a
    by (simp add: segments_joinWith segments_Nil)
  moreover have "segments (CHR ''/'' # s) = segments s" for s
    using segments_append[of "[]" s] by (simp add: segments_Nil)
  ultimately show ?thesis using a by (simp add: absPath_def segments_joinWith)
qed

lemma normalizeString_plain:
  "\<forall>p \<in> set xs. p = [] \<or> plain p \<Longrightarrow>
   normalizeString a xs acc = rev acc @ filter (\<lambda>p. p \<noteq> []) xs"
  by (induction xs arbitrary: acc) (auto simp: plain_def)

lemma normalizeString_append:
  "normalizeString a (xs @ ys) acc = normalizeString a ys (rev (normalizeString a xs acc))"
  by (induction xs arbitrary: acc) (auto split: list.splits)

lemma normalizeString_False_plain:
  "\<forall>p \<in> set acc. plain p \<Longrightarrow> \<forall>p \<in> set xs. CHR ''/'' \<notin> set p \<Longrightarrow>
   list_all plain (normalizeString False xs acc)"
proof (induction xs arbitrary: acc)
  case Nil
  then show ?case by (simp add: list_all_iff)
next
  case (Cons x xs)
  from Cons.prems(2) have rest: "\<forall>p \<in> set xs. CHR ''/'' \<notin> set p" and x: "CHR ''/'' \<notin> set x"
    by simp_all
  consider (skip) "x = [] \<or> x = ''.''" | (up) "x = ''..''"
    | (push) "x \<noteq> []" "x \<noteq> ''.''" "x \<noteq> ''..''"
    by blast
  then show ?case
  proof cases
    case skip
    then have "normalizeString False (x # xs) acc = normalizeString False xs acc" by auto
    with Cons.IH[OF Cons.prems(1) rest] show ?thesis by (simp only:)
  next
    case up
    define acc' where "acc' = (case acc of [] \<Rightarrow> [] | t # ts \<Rightarrow> if t = ''..'' then acc else ts)"
    have e: "normalizeString False (x # xs) acc = normalizeString False xs acc'"
      using up by (simp add: acc'_def split: list.splits)
    have "\<forall>p \<in> set acc'. plain p"
      using Cons.prems(1) by (auto simp: acc'_def split: list.splits)
    from Cons.IH[OF this rest] show ?thesis unfolding e .
  next
    case push
    then have e: "normalizeString False (x # xs) acc = normalizeString False xs (x # acc)"
      by simp
    have "plain x" using push x by (simp add: plain_def)
    with Cons.prems(1) have "\<forall>p \<in> set (x # acc). plain p" by simp
    from Cons.IH[OF this rest] show ?thesis unfolding e .
  qed
qed

lemma normalized_plain: "list_all plain (normalizeString False (split CHR ''/'' s) [])"
  by (rule normalizeString_False_plain) (auto dest: split_piece_no_sep)

lemma normalize_abs:
  assumes "s \<noteq> []" and "hd s = CHR ''/''"
  shows "normalize s = absPath (normalizeString False (split CHR ''/'' s) []) (last s = CHR ''/'')"
  using assms joinWith_eq_Nil[OF normalized_plain[of s]]
  by (simp add: normalize_def absPath_def Let_def)

lemma join2: "a \<noteq> [] \<Longrightarrow> b \<noteq> [] \<Longrightarrow> join [a, b] = normalize (a @ ''/'' @ b)"
  by (simp add: join_def)

lemma pieces_of_absPath:
  assumes "list_all plain ps" and "p \<in> set (split CHR ''/'' (absPath ps t))"
  shows "p = [] \<or> plain p"
proof (cases "p = []")
  case False
  with assms(2) have "p \<in> set (segments (absPath ps t))" by (simp add: segments_def)
  with assms(1) show ?thesis by (simp add: segments_absPath list_all_iff)
qed simp

lemma join_absPath:
  assumes "list_all plain ps" and "plain d"
  shows "join [absPath ps t, d] = absPath (ps @ [d]) False"
proof -
  let ?s = "absPath ps t @ ''/'' @ d"
  have dn: "d \<noteq> []" using assms(2) by (simp add: plain_def)
  then have "last d \<in> set d" by (rule last_in_set)
  with assms(2) have "last d \<noteq> CHR ''/''" unfolding plain_def by metis
  note d = dn this
  have "\<forall>p \<in> set (split CHR ''/'' ?s). p = [] \<or> plain p"
    using pieces_of_absPath[OF assms(1)] assms(2)
    by (auto simp: split_append split_no_sep plain_def)
  then have "normalizeString False (split CHR ''/'' ?s) [] = segments ?s"
    by (simp add: normalizeString_plain segments_def)
  also have "\<dots> = ps @ [d]"
    using segments_append[of "absPath ps t" d] assms
    by (simp add: segments_absPath segments_plain)
  finally have n: "normalizeString False (split CHR ''/'' ?s) [] = ps @ [d]" .
  have "join [absPath ps t, d] = normalize ?s"
    using d by (simp add: join2 absPath_def)
  also have "\<dots> = absPath (ps @ [d]) (last ?s = CHR ''/'')"
    using normalize_abs[of ?s] n by (simp add: absPath_def)
  also have "\<dots> = absPath (ps @ [d]) False"
    using d by simp
  finally show ?thesis .
qed

lemma join_abs:
  assumes "a \<noteq> []" and "hd a = CHR ''/''" and "b \<noteq> []"
  shows "\<exists>qs. list_all plain qs \<and> join [a, b] = absPath qs (last b = CHR ''/'')"
proof -
  have "join [a, b] = normalize (a @ ''/'' @ b)" using assms by (simp add: join2)
  also have "\<dots> = absPath (normalizeString False (split CHR ''/'' (a @ ''/'' @ b)) [])
                       (last (a @ ''/'' @ b) = CHR ''/'')"
    using assms by (intro normalize_abs) auto
  finally show ?thesis using normalized_plain assms(3) by auto
qed

lemma userFilesDirOf_abs:
  assumes "cwd \<noteq> []" and "hd cwd = CHR ''/''"
  shows "\<exists>ps. list_all plain ps \<and> userFilesDirOf cwd = absPath (ps @ [''public'', ''user-files'']) False"
proof -
  let ?s = "cwd @ ''/'' @ ''public'' @ ''/'' @ ''user-files''"
  let ?ps = "normalizeString False (split CHR ''/'' cwd) []"
  have sp: "split CHR ''/'' ?s = split CHR ''/'' cwd @ [''public'', ''user-files'']"
    using split_append[of "CHR ''/''" cwd "''public/user-files''"]
      split_append[of "CHR ''/''" "''public''" "''user-files''"]
    by (simp add: split_no_sep)
  have n: "normalizeString False (split CHR ''/'' ?s) [] = ?ps @ [''public'', ''user-files'']"
    unfolding sp normalizeString_append by simp
  have "userFilesDirOf cwd = normalize ?s"
    using assms by (simp add: userFilesDirOf_def join_def)
  also have "\<dots> = absPath (?ps @ [''public'', ''user-files'']) (last ?s = CHR ''/'')"
    using normalize_abs[of ?s] assms n by simp
  finally show ?thesis using normalized_plain[of cwd] by auto
qed

lemma absPath_snoc:
  "absPath (rs @ [d]) t =
     (if rs = [] then [] else absPath rs False) @ CHR ''/'' # d @ (if t then ''/'' else [])"
  by (simp add: absPath_def joinWith_snoc)

lemma dropWhile_slash_plain:
  assumes "plain d"
  shows "dropWhile (\<lambda>c. c = CHR ''/'') (rev (if t then ''/'' else []) @ rev d @ zs) = rev d @ zs"
proof -
  from assms obtain c cs where r: "rev d = c # cs" and c: "c \<noteq> CHR ''/''"
    by (cases "rev d") (auto simp: plain_def)
  then show ?thesis by simp
qed

lemma takeWhile_until: "\<forall>x \<in> set xs. P x \<Longrightarrow> \<not> P y \<Longrightarrow> takeWhile P (xs @ y # ys) = xs"
  by (induction xs) auto

lemma dropWhile_until: "\<forall>x \<in> set xs. P x \<Longrightarrow> \<not> P y \<Longrightarrow> dropWhile P (xs @ y # ys) = y # ys"
  by (induction xs) auto

lemma takeWhile_plain:
  assumes "plain d"
  shows "takeWhile (\<lambda>c. c \<noteq> CHR ''/'') (rev d @ CHR ''/'' # zs) = rev d"
    and "dropWhile (\<lambda>c. c \<noteq> CHR ''/'') (rev d @ CHR ''/'' # zs) = CHR ''/'' # zs"
    and "dropWhile (\<lambda>c. c \<noteq> CHR ''/'') (rev d) = []"
proof -
  have a: "\<forall>x \<in> set (rev d). x \<noteq> CHR ''/''"
    using assms by (auto simp: plain_def)
  show "takeWhile (\<lambda>c. c \<noteq> CHR ''/'') (rev d @ CHR ''/'' # zs) = rev d"
    by (rule takeWhile_until[OF a]) simp
  show "dropWhile (\<lambda>c. c \<noteq> CHR ''/'') (rev d @ CHR ''/'' # zs) = CHR ''/'' # zs"
    by (rule dropWhile_until[OF a]) simp
  show "dropWhile (\<lambda>c. c \<noteq> CHR ''/'') (rev d) = []"
    using a by (simp only: dropWhile_eq_Nil_conv)
qed

lemma basename_absPath:
  assumes "list_all plain qs" and "qs \<noteq> []"
  shows "basename (absPath qs t) = last qs"
proof -
  from assms(2) obtain rs d where qs: "qs = rs @ [d]" by (cases qs rule: rev_cases) auto
  with assms(1) have d: "plain d" by simp
  show ?thesis
    unfolding qs absPath_snoc basename_def
    using dropWhile_slash_plain[OF d, of t] takeWhile_plain(1)[OF d]
    by simp
qed

lemma dirname_absPath:
  assumes "list_all plain qs" and "qs \<noteq> []"
  shows "dirname (absPath qs t) = absPath (butlast qs) False"
proof -
  from assms(2) obtain rs d where qs: "qs = rs @ [d]" by (cases qs rule: rev_cases) auto
  with assms(1) have d: "plain d" and rs: "list_all plain rs" by simp_all
  define path where "path = absPath qs t"
  show ?thesis
  proof (cases "rs = []")
    case True
    have p: "path = CHR ''/'' # d @ (if t then ''/'' else [])"
      by (simp add: path_def qs True absPath_def)
    have r: "dropWhile (\<lambda>c. c \<noteq> CHR ''/'') (dropWhile (\<lambda>c. c = CHR ''/'') (rev (tl path))) = []"
      unfolding p
      using dropWhile_slash_plain[OF d, of t "[]"] takeWhile_plain(3)[OF d]
      by simp
    have "dirname path = ''/''"
      unfolding dirname_def Let_def r by (simp add: p)
    moreover have "absPath (butlast qs) False = ''/''"
      by (simp add: qs True absPath_def)
    ultimately show ?thesis unfolding path_def by simp
  next
    case False
    define J where "J = joinWith ''/'' rs"
    have J: "J \<noteq> []" using joinWith_eq_Nil[OF rs] False by (simp add: J_def)
    have p: "path = CHR ''/'' # J @ CHR ''/'' # d @ (if t then ''/'' else [])"
      by (simp add: path_def J_def qs absPath_def joinWith_snoc[OF False])
    have r: "dropWhile (\<lambda>c. c \<noteq> CHR ''/'') (dropWhile (\<lambda>c. c = CHR ''/'') (rev (tl path)))
             = CHR ''/'' # rev J"
      unfolding p
      using dropWhile_slash_plain[OF d, of t "CHR ''/'' # rev J"]
        takeWhile_plain(2)[OF d, of "rev J"]
      by simp
    have "dirname path = CHR ''/'' # J"
      unfolding dirname_def Let_def r using J by (simp add: p)
    moreover have "absPath (butlast qs) False = CHR ''/'' # J"
      by (simp add: qs absPath_def J_def)
    ultimately show ?thesis unfolding path_def by simp
  qed
qed

lemma trailingSlash_absPath:
  assumes "list_all plain qs" and "qs \<noteq> []"
  shows "\<not> trailingSlash (absPath qs False)"
proof -
  from assms(2) obtain rs d where qs: "qs = rs @ [d]" by (cases qs rule: rev_cases) auto
  with assms(1) have "plain d" by simp
  then have dn: "d \<noteq> []" and ns: "CHR ''/'' \<notin> set d" by (simp_all add: plain_def)
  from dn have "last d \<in> set d" by (rule last_in_set)
  with ns have ld: "last d \<noteq> CHR ''/''" by metis
  have "absPath qs False = (if rs = [] then [] else absPath rs False) @ CHR ''/'' # d"
    unfolding qs absPath_snoc by simp
  then have "last (absPath qs False) = last d" using dn by simp
  with ld show ?thesis by (simp add: trailingSlash_def)
qed

lemma PATCH_strings:
  assumes "getProp j ''oldPath'' = Some (JStr op)" and "op \<noteq> []"
    and "getProp j ''newName'' = Some (JStr nn)" and "trim nn \<noteq> []"
    and "\<forall>c \<in> set (trim nn). c \<notin> invalidChars"
  shows "PATCH now cwd fs (Some j) =
     (case stat fs (join [userFilesDirOf cwd, op]) of
        Inl e \<Rightarrow> (respond 404 (Failure ''File or folder not found''), fs)
      | Inr st \<Rightarrow>
          (case stat fs (join [dirname (join [userFilesDirOf cwd, op]), trim nn]) of
             Inr st' \<Rightarrow>
               (respond 409 (Failure ''A file or folder with this name already exists''), fs)
           | Inl e \<Rightarrow>
               (case rename now fs (join [userFilesDirOf cwd, op])
                       (join [dirname (join [userFilesDirOf cwd, op]), trim nn]) of
                  Inl e' \<Rightarrow> (respond 500 (Failure ''Failed to rename item''), fs)
                | Inr fs2 \<Rightarrow>
                    (respond 200
                       (Renamed ''Item renamed successfully'' op
                          (replace op (basename op) (trim nn)) (trim nn)),
                     fs2))))"
proof -
  have nn: "nn \<noteq> []" using assms(4) by (auto simp: trim_def)
  have jn: "j \<noteq> JNull" using assms(1) by auto
  show ?thesis
    using assms nn jn
    by (cases j) (simp_all add: PATCH_def Let_def split: sum.splits)
qed

section \<open>Properties of the read-tree handler\<close>






text \<open>When the target is a directory, the handler answers 200 with what the reader returns for it.\<close>

lemma GET_directory:
  assumes "lookup (initializeUserFilesDirectory now refuses fs (userFilesDirOf cwd))
             (segments (targetDirOf cwd q)) = Inr dir"
    and "isDir dir"
  shows "GET x now refuses cwd fs q =
     (respond 200
        (TreeData
           (FolderNode (if requestedPathOf q \<noteq> [] then requestedPathOf q else ''root'')
              (if requestedPathOf q \<noteq> [] then
                 (if last (split CHR ''/'' (requestedPathOf q)) = [] then ''user-files''
                  else last (split CHR ''/'' (requestedPathOf q)))
               else ''My Files'')
              (fst (readDirectory x 0 dir (requestedPathOf q))) now now)),
      initializeUserFilesDirectory now refuses fs (userFilesDirOf cwd))"
proof -
  from stat_dir[OF assms] obtain st where
    st: "stat (initializeUserFilesDirectory now refuses fs (userFilesDirOf cwd)) (targetDirOf cwd q)
           = Inr st" "isDirectory st"
    by blast
  show ?thesis
    unfolding GET_def Let_def requestedPathOf_def[symmetric]
    unfolding targetDirOf_def[symmetric]
    using st assms(1) by (simp add: pop_def split_not_Nil del: readDirectory.simps)
qed


section \<open>The properties the specification states\<close>

text \<open>
  C1. A create-folder request whose \<^verbatim>\<open>name\<close> consists of white space only is not
  answered 400: the handler tests the name before trimming it. With a \<^verbatim>\<open>folderPath\<close>
  that does not exist yet the answer is 200 and the directory \<^verbatim>\<open>folderPath\<close> is
  created; without one the answer is 409.
\<close>

theorem POST_whitespace_name:
  "fst (POST exampleCollab 5 noRefusal ''/app'' homeFs
          (Some (JObj [(''folderPath'', JStr ''x''), (''name'', JStr '' '')])))
     = respond 200 (Created ''Folder created successfully'' (FolderNode ''n'' [] [] 5 5)) \<and>
   lookup homeFs [''app'', ''public'', ''user-files'', ''x''] = Inl ENOENT \<and>
   lookup (snd (POST exampleCollab 5 noRefusal ''/app'' homeFs
                  (Some (JObj [(''folderPath'', JStr ''x''), (''name'', JStr '' '')]))))
       [''app'', ''public'', ''user-files'', ''x'']
     = Inr (DirN \<lparr>m_size = 0, m_birthtime = 5, m_mtime = 5\<rparr> True []) \<and>
   fst (POST exampleCollab 5 noRefusal ''/app'' homeFs (Some (JObj [(''name'', JStr '' '')])))
     = respond 409 (Failure ''Folder already exists'')"
  by code_simp

theorem POST_whitespace_name_witness:
  "status (fst (POST exampleCollab 5 noRefusal ''/app'' homeFs
                  (Some (JObj [(''folderPath'', JStr ''x''), (''name'', JStr '' '')]))))
     = 200"
  using POST_whitespace_name by (simp add: respond_def)

text \<open>
  C2. For a file whose name holds no dot the reader sets \<^verbatim>\<open>extension\<close> to the whole
  name in lower case, not to the empty string: the file \<^verbatim>\<open>README\<close> gets the extension
  \<^verbatim>\<open>readme\<close>.
\<close>

theorem readDirectory_extension_without_dot:
  "fst (readDirectory exampleCollab 0 (DirN meta0 True [(''README'', FileN (metaAt 5))]) [])
     = [FileNode ''n'' ''README'' 3 ''readme'' ''application/octet-stream'' 1 5]"
  by code_simp

theorem readDirectory_extension_without_dot_witness:
  "map extension
     (fst (readDirectory exampleCollab 0 (DirN meta0 True [(''README'', FileN (metaAt 5))]) []))
     = [''readme'']"
  using readDirectory_extension_without_dot by simp

text \<open>
  C3. For \<^verbatim>\<open>oldPath\<close> \<^verbatim>\<open>a/a\<close> and the new name \<^verbatim>\<open>b\<close> the entry moves to \<^verbatim>\<open>a/b\<close>, and the
  answer 200 gives \<^verbatim>\<open>b/a\<close> as \<^verbatim>\<open>newPath\<close>: the first occurrence of the last segment is
  replaced, not the last segment.
\<close>

theorem PATCH_newPath_repeated_segment:
  "fst (PATCH 5 ''/app'' homeFs (Some (JObj [(''oldPath'', JStr ''a/a''), (''newName'', JStr ''b'')])))
     = respond 200 (Renamed ''Item renamed successfully'' ''a/a'' ''b/a'' ''b'') \<and>
   lookup (snd (PATCH 5 ''/app'' homeFs
                  (Some (JObj [(''oldPath'', JStr ''a/a''), (''newName'', JStr ''b'')]))))
       [''app'', ''public'', ''user-files'', ''a'', ''b'']
     = Inr (FileN meta0) \<and>
   lookup (snd (PATCH 5 ''/app'' homeFs
                  (Some (JObj [(''oldPath'', JStr ''a/a''), (''newName'', JStr ''b'')]))))
       [''app'', ''public'', ''user-files'', ''b'', ''a'']
     = Inl ENOENT"
  by code_simp

theorem PATCH_newPath_repeated_segment_witness:
  "status (fst (PATCH 5 ''/app'' homeFs
                  (Some (JObj [(''oldPath'', JStr ''a/a''), (''newName'', JStr ''b'')]))))
     = 200"
  using PATCH_newPath_repeated_segment by (simp add: respond_def)




text \<open>
  C5. What the reader returns for a directory is in order at every level: the children
  are sorted by \<^verbatim>\<open>updatedAt\<close> descending, the nodes with one and the same \<^verbatim>\<open>updatedAt\<close>
  stand in the order in which the directory lists their entries, and the children of
  every folder node are in order in the same way, against the directory of its name.
\<close>

theorem readDirectory_children_sorted:
  "orderedLevel (fst (readDirectory x k dir rel)) (entries dir)"
  by (rule readDirectory_ordered)

theorem readDirectory_children_sorted_witness:
  "map name (fst (readDirectory exampleCollab 0 nestedDir [])) = [''d'', ''s''] \<and>
   map name (children (hd (fst (readDirectory exampleCollab 0 nestedDir [])))) = [''r'', ''p'', ''q''] \<and>
   orderedLevel (fst (readDirectory exampleCollab 0 nestedDir [])) (entries nestedDir) \<and>
   \<not> orderedLevel
       [FolderNode ''niii'' ''d''
          [FileNode ''nii'' ''r'' 3 ''r'' ''application/octet-stream'' 1 9,
           FileNode ''ni'' ''q'' 3 ''q'' ''application/octet-stream'' 1 5,
           FileNode ''n'' ''p'' 3 ''p'' ''application/octet-stream'' 1 5] 1 7,
        FileNode ''niiii'' ''s'' 3 ''s'' ''application/octet-stream'' 1 7]
       (entries nestedDir)"
proof -
  have a: "map name (fst (readDirectory exampleCollab 0 nestedDir [])) = [''d'', ''s'']"
    by code_simp
  have b: "map name (children (hd (fst (readDirectory exampleCollab 0 nestedDir []))))
             = [''r'', ''p'', ''q'']"
    by code_simp
  have c: "\<not> orderedLevel
       [FolderNode ''niii'' ''d''
          [FileNode ''nii'' ''r'' 3 ''r'' ''application/octet-stream'' 1 9,
           FileNode ''ni'' ''q'' 3 ''q'' ''application/octet-stream'' 1 5,
           FileNode ''n'' ''p'' 3 ''p'' ''application/octet-stream'' 1 5] 1 7,
        FileNode ''niiii'' ''s'' 3 ''s'' ''application/octet-stream'' 1 7]
       (entries nestedDir)"
    by code_simp
  from readDirectory_children_sorted[of exampleCollab 0 nestedDir "[]"] a b c
  show ?thesis by blast
qed

text \<open>
  C6. A directory whose read fails yields the empty sequence. In a directory that is
  read without error every entry still has its node, and a subdirectory whose read fails
  is a folder node with no children. Whenever the target of a read-tree request is a
  directory, the answer is 200 and its tree holds what the reader returns for that
  directory, nothing when its read fails; and no read-tree request is answered 500.
\<close>

theorem readDirectory_read_error:
  "(readFails dir \<longrightarrow> fst (readDirectory x k dir rel) = []) \<and>
   (\<not> readFails (DirN m r es) \<longrightarrow>
      mset (map name (fst (readDirectory x k (DirN m r es) rel))) = mset (map fst es) \<and>
      ((item, sub) \<in> set es \<and> isDir sub \<and> readFails sub \<longrightarrow>
         (\<exists>n \<in> set (fst (readDirectory x k (DirN m r es) rel)).
            name n = item \<and> isFolder n \<and> children n = []))) \<and>
   (lookup (initializeUserFilesDirectory now refuses fs (userFilesDirOf cwd))
        (segments (targetDirOf cwd q)) = Inr d \<and> isDir d \<longrightarrow>
      status (fst (GET x now refuses cwd fs q)) = 200 \<and>
      map_option children (rootOf (fst (GET x now refuses cwd fs q)))
        = Some (fst (readDirectory x 0 d (requestedPathOf q))) \<and>
      (readFails d \<longrightarrow>
         map_option children (rootOf (fst (GET x now refuses cwd fs q))) = Some [])) \<and>
   status (fst (GET x now refuses cwd fs q)) \<in> {200, 400, 404}"
proof (intro conjI impI)
  assume "readFails dir"
  then show "fst (readDirectory x k dir rel) = []" by (rule readDirectory_fails)
next
  assume "\<not> readFails (DirN m r es)"
  then have h: "r" "\<forall>e \<in> set es. snd e \<noteq> DanglingN" by auto
  then obtain ns where ns: "fst (readItems x k es rel) = Some ns" "map name ns = map fst es"
    using readItems_complete[of es x k rel] by blast
  have rd: "fst (readDirectory x k (DirN m r es) rel) = sortByLastUpdate ns"
    unfolding fst_readDirectory_DirN using h ns(1) by simp
  have "mset (map name (sortByLastUpdate ns)) = mset (map name ns)"
    by (simp add: sortByLastUpdate_mset)
  then show "mset (map name (fst (readDirectory x k (DirN m r es) rel))) = mset (map fst es)"
    unfolding rd by (simp only: ns(2))
next
  assume "\<not> readFails (DirN m r es)" and s: "(item, sub) \<in> set es \<and> isDir sub \<and> readFails sub"
  then have h: "r" "\<forall>e \<in> set es. snd e \<noteq> DanglingN" by auto
  then obtain ns where ns: "fst (readItems x k es rel) = Some ns"
    using readItems_complete[of es x k rel] by blast
  have rd: "fst (readDirectory x k (DirN m r es) rel) = sortByLastUpdate ns"
    unfolding fst_readDirectory_DirN using h ns by simp
  from readItems_member[OF h(2) ns] s obtain k' where
    k': "fst (itemNode x k' item sub rel) \<in> set ns" by blast
  have "name (fst (itemNode x k' item sub rel)) = item"
    by (rule itemNode_name)
  moreover have "isFolder (fst (itemNode x k' item sub rel))"
    using s by (simp add: itemNode_isFolder)
  moreover have "children (fst (itemNode x k' item sub rel)) = []"
    using s by (simp add: itemNode_children readDirectory_fails del: readDirectory.simps)
  ultimately show "\<exists>n \<in> set (fst (readDirectory x k (DirN m r es) rel)).
            name n = item \<and> isFolder n \<and> children n = []"
    unfolding rd sortByLastUpdate_set using k' by blast
next
  assume a: "lookup (initializeUserFilesDirectory now refuses fs (userFilesDirOf cwd))
        (segments (targetDirOf cwd q)) = Inr d \<and> isDir d"
  then have l: "lookup (initializeUserFilesDirectory now refuses fs (userFilesDirOf cwd))
        (segments (targetDirOf cwd q)) = Inr d" and i: "isDir d" by simp_all
  note g = GET_directory[OF l i, of x]
  show "status (fst (GET x now refuses cwd fs q)) = 200"
    unfolding g by (simp add: respond_def)
  show c: "map_option children (rootOf (fst (GET x now refuses cwd fs q)))
        = Some (fst (readDirectory x 0 d (requestedPathOf q)))"
    unfolding g by (simp add: respond_def)
  assume "readFails d"
  from readDirectory_fails[OF this, of x 0 "requestedPathOf q"]
  show "map_option children (rootOf (fst (GET x now refuses cwd fs q))) = Some []"
    unfolding c by simp
next
  show "status (fst (GET x now refuses cwd fs q)) \<in> {200, 400, 404}" by (rule GET_status)
qed

theorem readDirectory_read_error_witness:
  "readFails (DirN meta0 False [(''x'', FileN meta0)]) \<and>
   fst (readDirectory exampleCollab 0 (DirN meta0 False [(''x'', FileN meta0)]) []) = [] \<and>
   \<not> readFails mixedDir \<and>
   mset (map name (fst (readDirectory exampleCollab 0 mixedDir [])))
     = mset [''README'', ''locked'', ''Notes.TXT'', ''old''] \<and>
   (\<exists>n \<in> set (fst (readDirectory exampleCollab 0 mixedDir [])).
      name n = ''locked'' \<and> isFolder n \<and> children n = []) \<and>
   status (fst (GET exampleCollab 5 noRefusal ''/app'' mixedHomeFs None)) = 200 \<and>
   map_option children (rootOf (fst (GET exampleCollab 5 noRefusal ''/app'' mixedHomeFs None)))
     = Some (fst (readDirectory exampleCollab 0 mixedDir [])) \<and>
   status (fst (GET exampleCollab 5 noRefusal ''/app'' lockedHomeFs None)) = 200 \<and>
   map_option children (rootOf (fst (GET exampleCollab 5 noRefusal ''/app'' lockedHomeFs None)))
     = Some []"
proof -
  let ?top = "DirN meta0 False [(''x'', FileN meta0)]"
  let ?sub = "DirN (metaAt 7) False [(''x'', FileN meta0)]"
  have f: "readFails ?top" "isDir ?top" by simp_all
  have h: "\<not> readFails mixedDir" by (simp add: mixedDir_def)
  have d: "mixedDir = DirN meta0 True (entries mixedDir)" by (simp add: mixedDir_def)
  have e: "map fst (entries mixedDir) = [''README'', ''locked'', ''Notes.TXT'', ''old'']"
    "(''locked'', ?sub) \<in> set (entries mixedDir)" "isDir ?sub" "readFails ?sub"
    by (simp_all add: mixedDir_def)
  have l: "lookup (initializeUserFilesDirectory 5 noRefusal lockedHomeFs (userFilesDirOf ''/app''))
             (segments (targetDirOf ''/app'' None)) = Inr ?top"
    by code_simp
  have lm: "lookup (initializeUserFilesDirectory 5 noRefusal mixedHomeFs (userFilesDirOf ''/app''))
             (segments (targetDirOf ''/app'' None)) = Inr mixedDir"
    by code_simp
  have im: "isDir mixedDir" by (simp add: mixedDir_def)
  have rq: "requestedPathOf None = []" by (simp add: requestedPathOf_def)
  note t1 = readDirectory_read_error[where dir = ?top and x = exampleCollab and k = 0 and rel = "[]"
      and m = meta0 and r = True and es = "entries mixedDir" and item = "''locked''" and sub = ?sub
      and now = 5 and refuses = noRefusal and fs = lockedHomeFs and cwd = "''/app''" and q = None
      and d = ?top]
  note t2 = readDirectory_read_error[where dir = ?top and x = exampleCollab and k = 0 and rel = "[]"
      and m = meta0 and r = True and es = "entries mixedDir" and item = "''locked''" and sub = ?sub
      and now = 5 and refuses = noRefusal and fs = mixedHomeFs and cwd = "''/app''" and q = None
      and d = mixedDir]
  from t1 f h e l d[symmetric] rq have
    "fst (readDirectory exampleCollab 0 ?top []) = []"
    "mset (map name (fst (readDirectory exampleCollab 0 mixedDir [])))
       = mset [''README'', ''locked'', ''Notes.TXT'', ''old'']"
    "\<exists>n \<in> set (fst (readDirectory exampleCollab 0 mixedDir [])).
      name n = ''locked'' \<and> isFolder n \<and> children n = []"
    "status (fst (GET exampleCollab 5 noRefusal ''/app'' lockedHomeFs None)) = 200"
    "map_option children (rootOf (fst (GET exampleCollab 5 noRefusal ''/app'' lockedHomeFs None)))
       = Some []"
    by (simp_all del: readDirectory.simps readFails.simps isDir.simps)
  moreover from t2 lm im rq have
    "status (fst (GET exampleCollab 5 noRefusal ''/app'' mixedHomeFs None)) = 200"
    "map_option children (rootOf (fst (GET exampleCollab 5 noRefusal ''/app'' mixedHomeFs None)))
       = Some (fst (readDirectory exampleCollab 0 mixedDir []))"
    by (simp_all del: readDirectory.simps readFails.simps isDir.simps)
  ultimately show ?thesis using f(1) h by blast
qed

text \<open>
  C7. The initializer creates the root directory with its missing parents. When that
  fails it returns, with what has been created so far, and when it succeeds the root is
  a directory. When the directory then is not empty, or cannot be listed, it creates
  nothing more. When the directory is empty it creates \<^verbatim>\<open>Documents\<close> and then
  \<^verbatim>\<open>Images\<close>, both empty, and nothing else in it; when the system refuses \<^verbatim>\<open>Documents\<close>
  it returns with the directory still empty, and when it refuses \<^verbatim>\<open>Images\<close> it returns
  with \<^verbatim>\<open>Documents\<close> alone. In every case the initializer returns a filesystem and no
  error, so the request goes on.
\<close>

theorem initializeUserFilesDirectory_contract:
  assumes "cwd \<noteq> []" and "hd cwd = CHR ''/''"
    and "mkdir now refuses fs (userFilesDirOf cwd) = (r0, fs1)"
  shows
    "(r0 \<noteq> None \<longrightarrow> initializeUserFilesDirectory now refuses fs (userFilesDirOf cwd) = fs1) \<and>
     (r0 = None \<longrightarrow>
        (\<exists>st. stat (initializeUserFilesDirectory now refuses fs (userFilesDirOf cwd))
                 (userFilesDirOf cwd) = Inr st \<and> isDirectory st) \<and>
        (readdir fs1 (userFilesDirOf cwd) \<noteq> Inr [] \<longrightarrow>
           initializeUserFilesDirectory now refuses fs (userFilesDirOf cwd) = fs1) \<and>
        (readdir fs1 (userFilesDirOf cwd) = Inr [] \<longrightarrow>
           (refuses (segments (userFilesDirOf cwd) @ [''Documents'']) \<noteq> None \<longrightarrow>
              initializeUserFilesDirectory now refuses fs (userFilesDirOf cwd) = fs1) \<and>
           (refuses (segments (userFilesDirOf cwd) @ [''Documents'']) = None \<and>
            refuses (segments (userFilesDirOf cwd) @ [''Images'']) \<noteq> None \<longrightarrow>
              readdir (initializeUserFilesDirectory now refuses fs (userFilesDirOf cwd))
                  (userFilesDirOf cwd) = Inr [''Documents''] \<and>
              readdir (initializeUserFilesDirectory now refuses fs (userFilesDirOf cwd))
                  (join [userFilesDirOf cwd, ''Documents'']) = Inr []) \<and>
           (refuses (segments (userFilesDirOf cwd) @ [''Documents'']) = None \<and>
            refuses (segments (userFilesDirOf cwd) @ [''Images'']) = None \<longrightarrow>
              readdir (initializeUserFilesDirectory now refuses fs (userFilesDirOf cwd))
                  (userFilesDirOf cwd) = Inr [''Documents'', ''Images''] \<and>
              readdir (initializeUserFilesDirectory now refuses fs (userFilesDirOf cwd))
                  (join [userFilesDirOf cwd, ''Documents'']) = Inr [] \<and>
              readdir (initializeUserFilesDirectory now refuses fs (userFilesDirOf cwd))
                  (join [userFilesDirOf cwd, ''Images'']) = Inr [])))"
proof -
  define u where "u = userFilesDirOf cwd"
  define init where "init = initializeUserFilesDirectory now refuses fs u"
  note m = assms(3)[folded u_def]
  have failed: "init = fs1" if "r0 \<noteq> None"
    using that m by (auto simp: init_def initializeUserFilesDirectory_def)
  have other: "init = fs1" if "r0 = None" "readdir fs1 u \<noteq> Inr []"
    using that m by (auto simp: init_def initializeUserFilesDirectory_def split: sum.splits)
  have isdir: "\<exists>st. stat init u = Inr st \<and> isDirectory st" if r0: "r0 = None"
  proof -
    define P where "P f = (\<exists>n. lookup f (segments u) = Inr n \<and> isDir n)" for f
    have step: "P f'" if "mkdir now refuses f p = (res, f')" and "P f" for f f' p res
      using mkdir_preserves[OF that(1)] that(2) unfolding P_def by blast
    from mkdir_makes_dir[OF m[unfolded r0]] have p1: "P fs1" unfolding P_def by auto
    obtain r2 fs2 where m2: "mkdir now refuses fs1 (join [u, ''Documents'']) = (r2, fs2)"
      by (cases "mkdir now refuses fs1 (join [u, ''Documents''])")
    obtain r3 fs3 where m3: "mkdir now refuses fs2 (join [u, ''Images'']) = (r3, fs3)"
      by (cases "mkdir now refuses fs2 (join [u, ''Images''])")
    note p2 = step[OF m2 p1]
    note p3 = step[OF m3 p2]
    have "init \<in> {fs1, fs2, fs3}"
      using m m2 m3 r0
      by (simp add: init_def initializeUserFilesDirectory_def split: option.splits sum.splits)
    with p1 p2 p3 have "P init" by auto
    then obtain n where "lookup init (segments u) = Inr n" "isDir n" unfolding P_def by blast
    from stat_dir[OF this] show ?thesis .
  qed
  from userFilesDirOf_abs[OF assms(1,2)] obtain ps where
    ps: "list_all plain ps" "u = absPath (ps @ [''public'', ''user-files'']) False"
    unfolding u_def by blast
  define us where "us = ps @ [''public'', ''user-files'']"
  have pl: "list_all plain us" using ps(1) by (simp add: us_def plain_def)
  have une: "us \<noteq> []" by (simp add: us_def)
  have su: "segments u = us" using segments_absPath[OF pl] by (simp add: ps(2) us_def)
  have pd: "plain ''Documents''" "plain ''Images''" by (simp_all add: plain_def)
  have sd: "segments (join [u, ''Documents'']) = us @ [''Documents'']"
    using join_absPath[OF pl pd(1), of False] segments_absPath[of "us @ [''Documents'']" False] pl pd
    by (simp add: ps(2) us_def)
  have si: "segments (join [u, ''Images'']) = us @ [''Images'']"
    using join_absPath[OF pl pd(2), of False] segments_absPath[of "us @ [''Images'']" False] pl pd
    by (simp add: ps(2) us_def)
  define D where "D = DirN (freshMeta now) True []"
  have empty:
    "(refuses (us @ [''Documents'']) \<noteq> None \<longrightarrow> init = fs1) \<and>
     (refuses (us @ [''Documents'']) = None \<and> refuses (us @ [''Images'']) \<noteq> None \<longrightarrow>
        readdir init u = Inr [''Documents''] \<and>
        readdir init (join [u, ''Documents'']) = Inr []) \<and>
     (refuses (us @ [''Documents'']) = None \<and> refuses (us @ [''Images'']) = None \<longrightarrow>
        readdir init u = Inr [''Documents'', ''Images''] \<and>
        readdir init (join [u, ''Documents'']) = Inr [] \<and>
        readdir init (join [u, ''Images'']) = Inr [])"
    if r0: "r0 = None" and e: "readdir fs1 u = Inr []"
  proof -
    from readdir_empty[OF e] obtain m0 where
      l1: "lookup fs1 us = Inr (DirN m0 True [])" by (auto simp: su)
    have nd: "''Documents'' \<notin> fst ` set []" by simp
    from mkdir_new_child[OF l1 une nd sd, of now refuses] obtain fs2 where
      fs2: "mkdir now refuses fs1 (join [u, ''Documents'']) = (refuses (us @ [''Documents'']), fs2)"
      and l2: "if refuses (us @ [''Documents'']) = None
               then lookup fs2 us = Inr (DirN (m0\<lparr>m_mtime := now\<rparr>) True [(''Documents'', D)])
               else fs2 = fs1"
      by (auto simp: D_def)
    have i2: "init = (case refuses (us @ [''Documents'']) of
                        Some e \<Rightarrow> fs2
                      | None \<Rightarrow> snd (mkdir now refuses fs2 (join [u, ''Images''])))"
      using m r0 e fs2
      by (simp add: init_def initializeUserFilesDirectory_def split: option.splits prod.splits)
    have a: "init = fs1" if "refuses (us @ [''Documents'']) \<noteq> None"
      using that l2 i2 by auto
    have b: "readdir init u = Inr [''Documents''] \<and>
             readdir init (join [u, ''Documents'']) = Inr []"
      if d: "refuses (us @ [''Documents'']) = None" and i: "refuses (us @ [''Images'']) \<noteq> None"
    proof -
      from l2 d have l2': "lookup fs2 us = Inr (DirN (m0\<lparr>m_mtime := now\<rparr>) True [(''Documents'', D)])"
        by simp
      have "''Images'' \<notin> fst ` set [(''Documents'', D)]" by simp
      from mkdir_new_child[OF l2' une this si, of now refuses] i
      have "snd (mkdir now refuses fs2 (join [u, ''Images''])) = fs2" by auto
      with i2 d have ii: "init = fs2" by simp
      have r1: "readdir fs2 u = Inr [''Documents'']"
        by (simp add: readdir_def su l2')
      have r2: "readdir fs2 (join [u, ''Documents'']) = Inr []"
        using lookup_append[OF l2', of "[''Documents'']"]
        by (simp add: readdir_def sd D_def)
      from r1 r2 show ?thesis unfolding ii by simp
    qed
    have c: "readdir init u = Inr [''Documents'', ''Images''] \<and>
             readdir init (join [u, ''Documents'']) = Inr [] \<and>
             readdir init (join [u, ''Images'']) = Inr []"
      if d: "refuses (us @ [''Documents'']) = None" and i: "refuses (us @ [''Images'']) = None"
    proof -
      from l2 d have l2': "lookup fs2 us = Inr (DirN (m0\<lparr>m_mtime := now\<rparr>) True [(''Documents'', D)])"
        by simp
      have "''Images'' \<notin> fst ` set [(''Documents'', D)]" by simp
      from mkdir_new_child[OF l2' une this si, of now refuses] i obtain fs3 where
        fs3: "mkdir now refuses fs2 (join [u, ''Images'']) = (None, fs3)"
        and l3: "lookup fs3 us = Inr (DirN (m0\<lparr>m_mtime := now\<rparr>) True
                                       [(''Documents'', D), (''Images'', D)])"
        by (auto simp: D_def)
      from i2 d fs3 have ii: "init = fs3" by simp
      have r1: "readdir fs3 u = Inr [''Documents'', ''Images'']"
        by (simp add: readdir_def su l3)
      have r2: "readdir fs3 (join [u, ''Documents'']) = Inr []"
        using lookup_append[OF l3, of "[''Documents'']"]
        by (simp add: readdir_def sd D_def)
      have r3: "readdir fs3 (join [u, ''Images'']) = Inr []"
        using lookup_append[OF l3, of "[''Images'']"]
        by (simp add: readdir_def si D_def)
      from r1 r2 r3 show ?thesis unfolding ii by simp
    qed
    from a b c show ?thesis by blast
  qed
  show ?thesis
    unfolding u_def[symmetric] init_def[symmetric] su
    using failed other isdir empty by blast
qed

theorem initializeUserFilesDirectory_contract_witness:
  "initializeUserFilesDirectory 5 noRefusal blockedFs (userFilesDirOf ''/app'') = blockedFs \<and>
   initializeUserFilesDirectory 5 (refuseAt [''app'', ''public'', ''user-files''] ENOSPC) bareFs
       (userFilesDirOf ''/app'')
     = DirN meta0 True
         [(''app'', DirN (meta0\<lparr>m_mtime := 5\<rparr>) True
            [(''public'', DirN \<lparr>m_size = 0, m_birthtime = 5, m_mtime = 5\<rparr> True [])])] \<and>
   initializeUserFilesDirectory 5 noRefusal homeFs (userFilesDirOf ''/app'') = homeFs \<and>
   initializeUserFilesDirectory 5 noRefusal lockedHomeFs (userFilesDirOf ''/app'') = lockedHomeFs \<and>
   initializeUserFilesDirectory 5
       (refuseAt [''app'', ''public'', ''user-files'', ''Documents''] EACCES) emptyHomeFs
       (userFilesDirOf ''/app'')
     = emptyHomeFs \<and>
   readdir (initializeUserFilesDirectory 5
              (refuseAt [''app'', ''public'', ''user-files'', ''Images''] ENOSPC) emptyHomeFs
              (userFilesDirOf ''/app''))
       (userFilesDirOf ''/app'')
     = Inr [''Documents''] \<and>
   readdir (initializeUserFilesDirectory 5 noRefusal bareFs (userFilesDirOf ''/app''))
       (userFilesDirOf ''/app'')
     = Inr [''Documents'', ''Images''] \<and>
   readdir (initializeUserFilesDirectory 5 noRefusal bareFs (userFilesDirOf ''/app''))
       (join [userFilesDirOf ''/app'', ''Documents'']) = Inr [] \<and>
   readdir (initializeUserFilesDirectory 5 noRefusal bareFs (userFilesDirOf ''/app''))
       (join [userFilesDirOf ''/app'', ''Images'']) = Inr [] \<and>
   (\<exists>st. stat (initializeUserFilesDirectory 5 noRefusal bareFs (userFilesDirOf ''/app''))
            (userFilesDirOf ''/app'') = Inr st \<and> isDirectory st)"
proof -
  let ?u = "userFilesDirOf ''/app''"
  let ?part = "DirN meta0 True
         [(''app'', DirN (meta0\<lparr>m_mtime := 5\<rparr>) True
            [(''public'', DirN \<lparr>m_size = 0, m_birthtime = 5, m_mtime = 5\<rparr> True [])])]"
  let ?made = "DirN meta0 True
              [(''app'', DirN (meta0\<lparr>m_mtime := 5\<rparr>) True
                 [(''public'', DirN \<lparr>m_size = 0, m_birthtime = 5, m_mtime = 5\<rparr> True
                    [(''user-files'',
                      DirN \<lparr>m_size = 0, m_birthtime = 5, m_mtime = 5\<rparr> True [])])])]"
  let ?noDoc = "refuseAt [''app'', ''public'', ''user-files'', ''Documents''] EACCES"
  let ?noImg = "refuseAt [''app'', ''public'', ''user-files'', ''Images''] ENOSPC"
  let ?noRoot = "refuseAt [''app'', ''public'', ''user-files''] ENOSPC"
  have c: "''/app'' \<noteq> []" "hd ''/app'' = CHR ''/''" by simp_all
  have su: "segments ?u = [''app'', ''public'', ''user-files'']" by code_simp
  have m1: "mkdir 5 noRefusal blockedFs ?u = (Some ENOTDIR, blockedFs)" by code_simp
  have m2: "mkdir 5 ?noRoot bareFs ?u = (Some ENOSPC, ?part)" by code_simp
  have m3: "mkdir 5 noRefusal homeFs ?u = (None, homeFs)" by code_simp
  have e3: "readdir homeFs ?u \<noteq> Inr []" by code_simp
  have m4: "mkdir 5 noRefusal lockedHomeFs ?u = (None, lockedHomeFs)" by code_simp
  have e4: "readdir lockedHomeFs ?u \<noteq> Inr []" by code_simp
  have m5: "mkdir 5 ?noDoc emptyHomeFs ?u = (None, emptyHomeFs)" by code_simp
  have r5: "?noDoc ([''app'', ''public'', ''user-files''] @ [''Documents'']) \<noteq> None"
    by (simp add: refuseAt_def)
  have m6: "mkdir 5 ?noImg emptyHomeFs ?u = (None, emptyHomeFs)" by code_simp
  have r6: "?noImg ([''app'', ''public'', ''user-files''] @ [''Documents'']) = None"
    "?noImg ([''app'', ''public'', ''user-files''] @ [''Images'']) \<noteq> None"
    by (simp_all add: refuseAt_def)
  have e5: "readdir emptyHomeFs ?u = Inr []" by code_simp
  have m7: "mkdir 5 noRefusal bareFs ?u = (None, ?made)" by code_simp
  have e7: "readdir ?made ?u = Inr []" by code_simp
  have r7: "noRefusal ps = None" for ps by (simp add: noRefusal_def)
  have 1: "initializeUserFilesDirectory 5 noRefusal blockedFs ?u = blockedFs"
    using initializeUserFilesDirectory_contract[OF c m1] by simp
  have 2: "initializeUserFilesDirectory 5 ?noRoot bareFs ?u = ?part"
    using initializeUserFilesDirectory_contract[OF c m2] by simp
  have 3: "initializeUserFilesDirectory 5 noRefusal homeFs ?u = homeFs"
    using initializeUserFilesDirectory_contract[OF c m3] e3 by simp
  have 4: "initializeUserFilesDirectory 5 noRefusal lockedHomeFs ?u = lockedHomeFs"
    using initializeUserFilesDirectory_contract[OF c m4] e4 by simp
  have 5: "initializeUserFilesDirectory 5 ?noDoc emptyHomeFs ?u = emptyHomeFs"
    using initializeUserFilesDirectory_contract[OF c m5] e5 r5 unfolding su by simp
  have 6: "readdir (initializeUserFilesDirectory 5 ?noImg emptyHomeFs ?u) ?u = Inr [''Documents'']"
    using initializeUserFilesDirectory_contract[OF c m6] e5 r6 unfolding su by simp
  have 7: "readdir (initializeUserFilesDirectory 5 noRefusal bareFs ?u) ?u
             = Inr [''Documents'', ''Images'']"
    "readdir (initializeUserFilesDirectory 5 noRefusal bareFs ?u) (join [?u, ''Documents'']) = Inr []"
    "readdir (initializeUserFilesDirectory 5 noRefusal bareFs ?u) (join [?u, ''Images'']) = Inr []"
    "\<exists>st. stat (initializeUserFilesDirectory 5 noRefusal bareFs ?u) ?u = Inr st \<and> isDirectory st"
    using initializeUserFilesDirectory_contract[OF c m7] e7 r7 by simp_all
  from 1 2 3 4 5 6 7 show ?thesis by blast
qed

text \<open>
  C8. A rename request that is not answered 200 leaves the filesystem as it was: every
  such answer is given before \<^verbatim>\<open>rename\<close> is called, or after \<^verbatim>\<open>rename\<close> has failed.
\<close>

theorem PATCH_non_200_unchanged:
  "status (fst (PATCH now cwd fs body)) \<noteq> 200 \<Longrightarrow> snd (PATCH now cwd fs body) = fs"
  unfolding PATCH_def Let_def respond_def
  by (auto split: option.splits json.splits sum.splits prod.splits if_splits)

theorem PATCH_non_200_unchanged_witness:
  "status (fst (PATCH 5 ''/app'' homeFs
                  (Some (JObj [(''oldPath'', JStr ''a''), (''newName'', JStr ''Images'')]))))
     = 409 \<and>
   snd (PATCH 5 ''/app'' homeFs
          (Some (JObj [(''oldPath'', JStr ''a''), (''newName'', JStr ''Images'')])))
     = homeFs"
proof -
  have st: "status (fst (PATCH 5 ''/app'' homeFs
                  (Some (JObj [(''oldPath'', JStr ''a''), (''newName'', JStr ''Images'')]))))
     = 409"
    by code_simp
  then have "status (fst (PATCH 5 ''/app'' homeFs
                  (Some (JObj [(''oldPath'', JStr ''a''), (''newName'', JStr ''Images'')]))))
     \<noteq> 200"
    by simp
  from PATCH_non_200_unchanged[OF this] st show ?thesis by simp
qed

text \<open>
  C9. An entry named \<^verbatim>\<open>a:b\<close> exists; renaming it to its own name is answered 400, because
  the name holds a forbidden character.
\<close>

theorem PATCH_same_name_counterexample:
  "stat homeFs (join [userFilesDirOf ''/app'', ''a:b''])
     = Inr \<lparr>isDirectory = False, size_st = 0, birthtime = 0, mtime = 0\<rparr> \<and>
   trim ''a:b'' = basename (join [userFilesDirOf ''/app'', ''a:b'']) \<and>
   fst (PATCH 5 ''/app'' homeFs (Some (JObj [(''oldPath'', JStr ''a:b''), (''newName'', JStr ''a:b'')])))
     = respond 400 (Failure ''Name contains invalid characters'')"
  by code_simp

text \<open>
  C9, amended. When the trimmed new name is not empty, holds no forbidden character and
  is the last segment of the existing entry's path, the answer is 409 and nothing
  changes: the new path is the entry's own path, which exists.
\<close>

theorem PATCH_same_name:
  assumes "cwd \<noteq> []" and "hd cwd = CHR ''/''"
    and "getProp j ''oldPath'' = Some (JStr op)" and "op \<noteq> []"
    and "getProp j ''newName'' = Some (JStr nn)" and "trim nn \<noteq> []"
    and "\<forall>c \<in> set (trim nn). c \<notin> invalidChars"
    and "stat fs (join [userFilesDirOf cwd, op]) = Inr st"
    and "trim nn = basename (join [userFilesDirOf cwd, op])"
  shows "PATCH now cwd fs (Some j) =
           (respond 409 (Failure ''A file or folder with this name already exists''), fs)"
proof -
  define full where "full = join [userFilesDirOf cwd, op]"
  from userFilesDirOf_abs[OF assms(1,2)] obtain us where
    u: "userFilesDirOf cwd = absPath (us @ [''public'', ''user-files'']) False" by blast
  have "userFilesDirOf cwd \<noteq> []" "hd (userFilesDirOf cwd) = CHR ''/''"
    by (simp_all add: u absPath_def)
  from join_abs[OF this assms(4)] obtain qs where
    qs: "list_all plain qs" "full = absPath qs (last op = CHR ''/'')"
    unfolding full_def by blast
  have ne: "qs \<noteq> []"
  proof
    assume "qs = []"
    then have "basename full = []" by (simp add: qs(2) absPath_def basename_def)
    with assms(6,9) show False by (simp add: full_def)
  qed
  have b: "trim nn = last qs"
    using assms(9) basename_absPath[OF qs(1) ne] by (simp add: full_def[symmetric] qs(2))
  have pl: "plain (last qs)" using qs(1) ne by (simp add: list_all_iff)
  have bl: "list_all plain (butlast qs)"
    using qs(1) by (auto simp: list_all_iff dest: in_set_butlastD)
  have new: "join [dirname full, trim nn] = absPath qs False"
    unfolding qs(2) dirname_absPath[OF qs(1) ne] b
    using join_absPath[OF bl pl, of False] ne by simp
  from stat_lookup[OF assms(8)] obtain n where
    n: "lookup fs (segments full) = Inr n" "statNode n = Inr st"
    unfolding full_def by blast
  have "stat fs (absPath qs False) = Inr st"
    using n trailingSlash_absPath[OF qs(1) ne]
    by (simp add: stat_def qs(2) segments_absPath[OF qs(1)])
  then have "stat fs (join [dirname full, trim nn]) = Inr st" by (simp only: new)
  then show ?thesis
    unfolding PATCH_strings[OF assms(3,4,5,6,7)] full_def[symmetric]
    using assms(8) by (simp add: full_def)
qed

theorem PATCH_same_name_witness:
  "stat homeFs (join [userFilesDirOf ''/app'', ''a/a''])
     = Inr \<lparr>isDirectory = False, size_st = 0, birthtime = 0, mtime = 0\<rparr> \<and>
   trim '' a'' = basename (join [userFilesDirOf ''/app'', ''a/a'']) \<and>
   PATCH 5 ''/app'' homeFs (Some (JObj [(''oldPath'', JStr ''a/a''), (''newName'', JStr '' a'')]))
     = (respond 409 (Failure ''A file or folder with this name already exists''), homeFs)"
proof -
  let ?j = "JObj [(''oldPath'', JStr ''a/a''), (''newName'', JStr '' a'')]"
  have 1: "''/app'' \<noteq> []" "hd ''/app'' = CHR ''/''" by simp_all
  have 2: "getProp ?j ''oldPath'' = Some (JStr ''a/a'')" "''a/a'' \<noteq> []"
    "getProp ?j ''newName'' = Some (JStr '' a'')"
    by simp_all
  have 3: "trim '' a'' \<noteq> []" by code_simp
  have 4: "\<forall>c \<in> set (trim '' a''). c \<notin> invalidChars" by code_simp
  have 5: "stat homeFs (join [userFilesDirOf ''/app'', ''a/a''])
     = Inr \<lparr>isDirectory = False, size_st = 0, birthtime = 0, mtime = 0\<rparr>"
    by code_simp
  have 6: "trim '' a'' = basename (join [userFilesDirOf ''/app'', ''a/a''])" by code_simp
  from PATCH_same_name[OF 1 2 3 4 5 6, of 5] 5 6 show ?thesis by simp
qed

text \<open>
  C10. When the target of a create-folder request is an existing file, the pre-check
  passes, the recursive create fails with \<^verbatim>\<open>EEXIST\<close>, and the answer is 409
  \<^verbatim>\<open>Folder already exists\<close>.
\<close>

theorem POST_target_is_file:
  assumes "getProp j ''name'' = Some (JStr nm)" and "nm \<noteq> []"
    and "(if truthy (getProp j ''folderPath'')
          then map_option (\<lambda>fp. join [userFilesDirOf cwd, fp, trim nm])
                 (asString (getProp j ''folderPath''))
          else Some (join [userFilesDirOf cwd, trim nm])) = Some targetDir"
    and "stat fs targetDir = Inr st" and "\<not> isDirectory st"
  shows "stat (initializeUserFilesDirectory now refuses fs (userFilesDirOf cwd)) targetDir = Inr st \<and>
         mkdir now refuses (initializeUserFilesDirectory now refuses fs (userFilesDirOf cwd)) targetDir
           = (Some EEXIST, initializeUserFilesDirectory now refuses fs (userFilesDirOf cwd)) \<and>
         POST x now refuses cwd fs (Some j) =
           (respond 409 (Failure ''Folder already exists''),
            initializeUserFilesDirectory now refuses fs (userFilesDirOf cwd))"
proof -
  define fs1 where "fs1 = initializeUserFilesDirectory now refuses fs (userFilesDirOf cwd)"
  from stat_lookup[OF assms(4)] obtain n where
    n: "lookup fs (segments targetDir) = Inr n" "statNode n = Inr st" by blast
  from statNode_file[OF n(2) assms(5)] obtain m where m: "n = FileN m" by blast
  from initialize_preserves[OF n(1), of now refuses "userFilesDirOf cwd"] m
  have l1: "lookup fs1 (segments targetDir) = Inr (FileN m)" by (simp add: fs1_def)
  have nt: "\<not> trailingSlash targetDir"
    using assms(4) n m by (auto simp: stat_def split: if_splits)
  have s1: "stat fs1 targetDir = Inr st"
    using l1 n(2) m nt by (simp add: stat_def)
  have mk: "mkdir now refuses fs1 targetDir = (Some EEXIST, fs1)"
    by (rule mkdir_file_exists[OF l1])
  have jn: "j \<noteq> JNull" using assms(1) by auto
  have "POST x now refuses cwd fs (Some j) = (respond 409 (Failure ''Folder already exists''), fs1)"
    unfolding POST_not_null[OF jn] fs1_def[symmetric]
    using assms(1,2,3,5) s1 mk by simp
  with s1 mk show ?thesis unfolding fs1_def by simp
qed

theorem POST_target_is_file_witness:
  "stat homeFs (join [userFilesDirOf ''/app'', ''a'', trim ''a '']) = Inr \<lparr>isDirectory = False, size_st = 0, birthtime = 0, mtime = 0\<rparr> \<and>
   POST exampleCollab 5 noRefusal ''/app'' homeFs (Some (JObj [(''folderPath'', JStr ''a''), (''name'', JStr ''a '')]))
     = (respond 409 (Failure ''Folder already exists''), homeFs)"
proof -
  let ?j = "JObj [(''folderPath'', JStr ''a''), (''name'', JStr ''a '')]"
  have 1: "getProp ?j ''name'' = Some (JStr ''a '')" by simp
  have 2: "''a '' \<noteq> []" by simp
  have 3: "(if truthy (getProp ?j ''folderPath'')
          then map_option (\<lambda>fp. join [userFilesDirOf ''/app'', fp, trim ''a ''])
                 (asString (getProp ?j ''folderPath''))
          else Some (join [userFilesDirOf ''/app'', trim ''a ''])) = Some (join [userFilesDirOf ''/app'', ''a'', trim ''a ''])"
    by simp
  have 4: "stat homeFs (join [userFilesDirOf ''/app'', ''a'', trim ''a ''])
    = Inr \<lparr>isDirectory = False, size_st = 0, birthtime = 0, mtime = 0\<rparr>"
    by code_simp
  have 5: "\<not> isDirectory \<lparr>isDirectory = False, size_st = 0, birthtime = 0, mtime = 0\<rparr>" by simp
  have i: "initializeUserFilesDirectory 5 noRefusal homeFs (userFilesDirOf ''/app'') = homeFs"
    by code_simp
  from POST_target_is_file[OF 1 2 3 4 5, of 5 noRefusal exampleCollab] 4 show ?thesis
    unfolding i by simp
qed

end
